theory Spec2Isabelle
  imports Main "HOL-Library.AList"
begin

section \<open>Logic values and gate evaluators\<close>

text \<open>
  The four logic values of the source are the one-character strings \<open>'0'\<close>, \<open>'1'\<close>,
  \<open>'U'\<close> and \<open>'X'\<close>; they are modelled by an enumeration that keeps the names of the
  source constants.  The \<open>logic_model\<close> argument is one of the two strings \<open>'2val'\<close> and
  \<open>'3val'\<close>.
\<close>

datatype logic = LOGIC_ZERO | LOGIC_ONE | LOGIC_U | LOGIC_X

datatype logic_model = V2 | V3

text \<open>
  Every exception the source can raise is a value: \<open>ValueError\<close> is raised by the gate
  constructor, \<open>IndexError\<close> by a list read or write out of range, \<open>KeyError\<close> by a
  dictionary read of a missing key, \<open>TypeError\<close> by the membership test \<open>'marker' in
  elem\<close> on an object that is no container.
\<close>

datatype error = ValueError | IndexError | KeyError | TypeError

fun logic_and :: "nat list \<Rightarrow> logic list \<Rightarrow> logic_model \<Rightarrow> error + logic" where
  "logic_and [] values m = Inr LOGIC_ONE"
| "logic_and (i # is) values m =
     (if i < length values then
        (let val = values ! i in
         if val = LOGIC_ZERO then Inr LOGIC_ZERO
         else if m = V3 \<and> val = LOGIC_U then Inr LOGIC_U
         else logic_and is values m)
      else Inl IndexError)"

fun logic_or :: "nat list \<Rightarrow> logic list \<Rightarrow> logic_model \<Rightarrow> error + logic" where
  "logic_or [] values m = Inr LOGIC_ZERO"
| "logic_or (i # is) values m =
     (if i < length values then
        (let val = values ! i in
         if val = LOGIC_ONE then Inr LOGIC_ONE
         else if m = V3 \<and> val = LOGIC_U then Inr LOGIC_U
         else logic_or is values m)
      else Inl IndexError)"

definition logic_not_single :: "logic \<Rightarrow> logic_model \<Rightarrow> logic" where
  "logic_not_single val m =
     (if m = V3 \<and> val = LOGIC_U then LOGIC_U
      else if val = LOGIC_ZERO then LOGIC_ONE
      else if val = LOGIC_ONE then LOGIC_ZERO
      else LOGIC_X)"

definition logic_not :: "nat \<Rightarrow> logic list \<Rightarrow> logic_model \<Rightarrow> error + logic" where
  "logic_not input_idx values m =
     (if input_idx < length values then
        (let val = values ! input_idx in
         if m = V3 \<and> val = LOGIC_U then Inr LOGIC_U
         else if val = LOGIC_ZERO then Inr LOGIC_ONE
         else if val = LOGIC_ONE then Inr LOGIC_ZERO
         else Inr LOGIC_X)
      else Inl IndexError)"

definition logic_nand :: "nat list \<Rightarrow> logic list \<Rightarrow> logic_model \<Rightarrow> error + logic" where
  "logic_nand ins values m =
     (case logic_and ins values m of
        Inl e \<Rightarrow> Inl e
      | Inr andv \<Rightarrow> if andv = LOGIC_U then Inr LOGIC_U else Inr (logic_not_single andv m))"

definition logic_nor :: "nat list \<Rightarrow> logic list \<Rightarrow> logic_model \<Rightarrow> error + logic" where
  "logic_nor ins values m =
     (case logic_or ins values m of
        Inl e \<Rightarrow> Inl e
      | Inr orv \<Rightarrow> if orv = LOGIC_U then Inr LOGIC_U else Inr (logic_not_single orv m))"

text \<open>The loop of \<open>logic_xor\<close>, with its counter \<open>ones\<close> as an accumulator.\<close>

fun logic_xor_loop :: "nat list \<Rightarrow> logic list \<Rightarrow> nat \<Rightarrow> error + logic" where
  "logic_xor_loop [] values ones = Inr (if ones mod 2 = 1 then LOGIC_ONE else LOGIC_ZERO)"
| "logic_xor_loop (i # is) values ones =
     (if i < length values then
        (let val = values ! i in
         if val = LOGIC_U then Inr LOGIC_U
         else if val = LOGIC_ONE then logic_xor_loop is values (ones + 1)
         else logic_xor_loop is values ones)
      else Inl IndexError)"

definition logic_xor :: "nat list \<Rightarrow> logic list \<Rightarrow> logic_model \<Rightarrow> error + logic" where
  "logic_xor ins values m = logic_xor_loop ins values 0"

definition logic_xnor :: "nat list \<Rightarrow> logic list \<Rightarrow> logic_model \<Rightarrow> error + logic" where
  "logic_xnor ins values m =
     (case logic_xor ins values m of
        Inl e \<Rightarrow> Inl e
      | Inr xorv \<Rightarrow> if xorv = LOGIC_U then Inr LOGIC_U else Inr (logic_not_single xorv m))"

section \<open>Gates\<close>

text \<open>
  The keys of the dispatch table \<open>GATE_FUNCS\<close>.  A gate stores its type after
  \<open>upper()\<close>, and its constructor raises unless that string is a key of the table, so
  the type of a constructed gate is one of these seven.
\<close>

datatype gate_type = AND | OR | NOT | NAND | NOR | XOR | XNOR

definition upper_char :: "char \<Rightarrow> char" where
  "upper_char c =
     (case map_of (zip ''abcdefghijklmnopqrstuvwxyz'' ''ABCDEFGHIJKLMNOPQRSTUVWXYZ'') c of
        Some d \<Rightarrow> d
      | None \<Rightarrow> c)"

text \<open>\<open>str.upper\<close> on ASCII strings.\<close>

definition upper :: "string \<Rightarrow> string" where
  "upper s = map upper_char s"

definition GATE_FUNCS :: "string \<Rightarrow> gate_type option" where
  "GATE_FUNCS s =
     (if s = ''AND'' then Some AND
      else if s = ''OR'' then Some OR
      else if s = ''NOT'' then Some NOT
      else if s = ''NAND'' then Some NAND
      else if s = ''NOR'' then Some NOR
      else if s = ''XOR'' then Some XOR
      else if s = ''XNOR'' then Some XNOR
      else None)"

text \<open>
  A gate object.  The source compares gates by object identity (membership tests in
  queues, dictionary keys); here two gates are the same when their fields are, which is
  the same thing for the gates of a circuit built by \<open>add_gate\<close>, whose ids are their
  positions in the gate list.
\<close>

record Gate =
  gid :: nat
  gtype :: gate_type
  inputs :: "nat list"
  output_net :: nat

definition Gate_init :: "nat \<Rightarrow> string \<Rightarrow> nat list \<Rightarrow> nat \<Rightarrow> error + Gate" where
  "Gate_init gate_id gate_type_name ins out =
     (case GATE_FUNCS (upper gate_type_name) of
        None \<Rightarrow> Inl ValueError
      | Some t \<Rightarrow> Inr \<lparr>gid = gate_id, gtype = t, inputs = ins, output_net = out\<rparr>)"

definition gate_func :: "gate_type \<Rightarrow> nat list \<Rightarrow> logic list \<Rightarrow> logic_model \<Rightarrow> error + logic" where
  "gate_func t ins values m =
     (case t of
        AND \<Rightarrow> logic_and ins values m
      | OR \<Rightarrow> logic_or ins values m
      | NOT \<Rightarrow> (case ins of [] \<Rightarrow> Inl IndexError | i # _ \<Rightarrow> logic_not i values m)
      | NAND \<Rightarrow> logic_nand ins values m
      | NOR \<Rightarrow> logic_nor ins values m
      | XOR \<Rightarrow> logic_xor ins values m
      | XNOR \<Rightarrow> logic_xnor ins values m)"

text \<open>\<open>Gate.simulate\<close>: a NOT gate reads \<open>inputs[0]\<close>, the others go through the table.\<close>

definition simulate :: "Gate \<Rightarrow> logic list \<Rightarrow> logic_model \<Rightarrow> error + logic" where
  "simulate g net_vals m = gate_func (gtype g) (inputs g) net_vals m"

section \<open>Circuits\<close>

text \<open>
  \<open>fanout\<close> is a \<open>defaultdict(list)\<close>: a net that was never a gate input has the empty
  list.
\<close>

record Circuit =
  net_id_map :: "string \<rightharpoonup> nat"
  net_names :: "string list"
  next_net_id :: nat
  gates :: "Gate list"
  primary_inputs :: "nat list"
  primary_outputs :: "nat list"
  fanout :: "nat \<Rightarrow> Gate list"

definition Circuit_init :: Circuit where
  "Circuit_init =
     \<lparr>net_id_map = Map.empty, net_names = [], next_net_id = 0, gates = [],
      primary_inputs = [], primary_outputs = [], fanout = (\<lambda>_. [])\<rparr>"

definition add_net :: "Circuit \<Rightarrow> string \<Rightarrow> Circuit \<times> nat" where
  "add_net c name =
     (case net_id_map c name of
        Some i \<Rightarrow> (c, i)
      | None \<Rightarrow>
          (c\<lparr>net_id_map := (net_id_map c)(name \<mapsto> next_net_id c),
             net_names := net_names c @ [name],
             next_net_id := next_net_id c + 1\<rparr>,
           next_net_id c))"

text \<open>The comprehension \<open>[self.add_net(n) for n in names]\<close>.\<close>

fun add_nets :: "Circuit \<Rightarrow> string list \<Rightarrow> Circuit \<times> nat list" where
  "add_nets c [] = (c, [])"
| "add_nets c (n # ns) =
     (let (c1, i) = add_net c n; (c2, is) = add_nets c1 ns in (c2, i # is))"

text \<open>The loop \<open>for net in input_ids: self.fanout[net].append(gate)\<close>.\<close>

fun add_fanout :: "(nat \<Rightarrow> Gate list) \<Rightarrow> nat list \<Rightarrow> Gate \<Rightarrow> (nat \<Rightarrow> Gate list)" where
  "add_fanout f [] g = f"
| "add_fanout f (net # nets) g = add_fanout (f(net := f net @ [g])) nets g"

text \<open>
  \<open>add_gate\<close> returns the circuit as the call leaves it together with the gate or the
  exception: the nets are added before the gate constructor runs, so the circuit is
  changed also when the constructor raises.
\<close>

definition add_gate :: "Circuit \<Rightarrow> string \<Rightarrow> string list \<Rightarrow> string \<Rightarrow> Circuit \<times> (error + Gate)" where
  "add_gate c gate_type_name input_names output_name =
     (let (c1, input_ids) = add_nets c input_names;
          (c2, out_id) = add_net c1 output_name
      in case Gate_init (length (gates c2)) gate_type_name input_ids out_id of
           Inl e \<Rightarrow> (c2, Inl e)
         | Inr gate \<Rightarrow>
             (c2\<lparr>gates := gates c2 @ [gate],
                 fanout := add_fanout (fanout c2) input_ids gate\<rparr>,
              Inr gate))"

definition set_primary_inputs :: "Circuit \<Rightarrow> string list \<Rightarrow> Circuit" where
  "set_primary_inputs c input_names =
     (let (c1, ids) = add_nets c input_names in c1\<lparr>primary_inputs := ids\<rparr>)"

definition set_primary_outputs :: "Circuit \<Rightarrow> string list \<Rightarrow> Circuit" where
  "set_primary_outputs c output_names =
     (let (c1, ids) = add_nets c output_names in c1\<lparr>primary_outputs := ids\<rparr>)"

definition get_gate_by_output :: "Circuit \<Rightarrow> nat \<Rightarrow> Gate list" where
  "get_gate_by_output c net_id = filter (\<lambda>g. output_net g = net_id) (gates c)"

section \<open>Simulator state\<close>

text \<open>
  The five simulator classes share the fields \<open>circuit\<close>, \<open>logic_model\<close>,
  \<open>num_nets\<close>, \<open>net_values\<close>, \<open>gate_sim_count\<close> and \<open>output_log\<close>; the records
  below extend a common record so that each field keeps its source name.  An entry
  of the output log is the dictionary \<open>{nid: net_values[nid] for nid in
  primary_outputs}\<close>, a map from net ids to values.
\<close>

record Simulator =
  circuit :: Circuit
  logic_model :: logic_model
  num_nets :: nat
  net_values :: "logic list"
  gate_sim_count :: nat
  output_log :: "(nat \<rightharpoonup> logic) list"

record LoggedSimulator = Simulator +
  intermediate_log :: "(nat \<times> (nat \<rightharpoonup> logic)) list"

text \<open>\<open>TwoListSimulator\<close> and \<open>SingleListEventSimulator\<close> have the same fields.\<close>

record TwoListSimulator = LoggedSimulator +
  net_mark :: "bool list"

type_synonym SingleListEventSimulator = TwoListSimulator

type_synonym SingleListGateSimulator = LoggedSimulator

record ZeroDelaySimulator = LoggedSimulator +
  levels :: "nat \<rightharpoonup> nat"
  max_level :: nat

text \<open>
  The two stacks of the threaded simulator hold task objects: a \<open>NetEventTask\<close> is
  its pair of net id and value, a \<open>GateTask\<close> is its gate.  A stack is a list whose
  head is the top: \<open>append\<close> is \<open>#\<close> and \<open>pop()\<close> takes the head.
\<close>

record ThreadedSimulator = Simulator +
  event_stack :: "(nat \<times> logic) list"
  gate_stack :: "Gate list"

datatype hazard_kind = static | dynamic

text \<open>An element of a single-list queue: the time marker or a queued item.\<close>

datatype 'a entry = MARKER | Item 'a

text \<open>
  The dictionary comprehension over the primary outputs; reading a net id out of
  range raises.
\<close>

fun snapshot_loop :: "(nat \<rightharpoonup> logic) \<Rightarrow> nat list \<Rightarrow> logic list \<Rightarrow> error + (nat \<rightharpoonup> logic)" where
  "snapshot_loop d [] nv = Inr d"
| "snapshot_loop d (nid # nids) nv =
     (if nid < length nv then snapshot_loop (d(nid \<mapsto> nv ! nid)) nids nv
      else Inl IndexError)"

definition snapshot :: "nat list \<Rightarrow> logic list \<Rightarrow> error + (nat \<rightharpoonup> logic)" where
  "snapshot nids nv = snapshot_loop Map.empty nids nv"

text \<open>
  The hazard pass that ends \<open>simulate_vector\<close> in the four delay-aware simulators:
  \<open>for net in range(num_nets)\<close>, with the list \<open>hazards\<close> as an accumulator.
\<close>

fun hazard_pass ::
  "nat list \<Rightarrow> logic list \<Rightarrow> logic list \<Rightarrow> nat list \<Rightarrow> (nat \<times> hazard_kind) list
   \<Rightarrow> error + (nat \<times> hazard_kind) list" where
  "hazard_pass [] old_values nv change_count hazards = Inr hazards"
| "hazard_pass (net # nets) old_values nv change_count hazards =
     (if net < length change_count then
        (if change_count ! net > 1 then
           (if net < length old_values \<and> net < length nv then
              (if old_values ! net = nv ! net
               then hazard_pass nets old_values nv change_count (hazards @ [(net, static)])
               else hazard_pass nets old_values nv change_count (hazards @ [(net, dynamic)]))
            else Inl IndexError)
         else hazard_pass nets old_values nv change_count hazards)
      else Inl IndexError)"

section \<open>Two-list simulator\<close>

definition TwoListSimulator_init :: "Circuit \<Rightarrow> logic_model \<Rightarrow> TwoListSimulator" where
  "TwoListSimulator_init c m =
     \<lparr>circuit = c, logic_model = m, num_nets = next_net_id c,
      net_values = replicate (next_net_id c) (if m = V3 then LOGIC_U else LOGIC_ZERO),
      gate_sim_count = 0, output_log = [], intermediate_log = [],
      net_mark = (if m = V2 then replicate (next_net_id c) True
                  else replicate (next_net_id c) False)\<rparr>"

text \<open>
  The loop over the primary inputs of the two-list and the single-list event
  simulators.  \<open>input_vector.get(net, self.net_values[net])\<close> evaluates its default, so
  a net id out of range raises whether or not the vector has the key.
\<close>

fun queue_inputs ::
  "nat list \<Rightarrow> (nat \<rightharpoonup> logic) \<Rightarrow> logic_model \<Rightarrow> logic list \<Rightarrow> bool list \<Rightarrow> (nat \<times> logic) list
   \<Rightarrow> error + (bool list \<times> (nat \<times> logic) list)" where
  "queue_inputs [] iv m nv mark event_queue = Inr (mark, event_queue)"
| "queue_inputs (net # nets) iv m nv mark event_queue =
     (if net < length nv then
        (let val = (case iv net of Some v \<Rightarrow> v | None \<Rightarrow> nv ! net) in
         if m = V2 then
           (if net < length mark then
              (if val \<noteq> nv ! net \<or> mark ! net
               then queue_inputs nets iv m nv (mark[net := False]) (event_queue @ [(net, val)])
               else queue_inputs nets iv m nv mark event_queue)
            else Inl IndexError)
         else
           (if val \<noteq> nv ! net
            then queue_inputs nets iv m nv mark (event_queue @ [(net, val)])
            else queue_inputs nets iv m nv mark event_queue))
      else Inl IndexError)"

text \<open>\<open>for g in fanout[net_id]: if g not in gate_queue: gate_queue.append(g)\<close>\<close>

fun schedule_fanout :: "Gate list \<Rightarrow> Gate list \<Rightarrow> Gate list" where
  "schedule_fanout [] gate_queue = gate_queue"
| "schedule_fanout (g # gs) gate_queue =
     schedule_fanout gs (if g \<in> set gate_queue then gate_queue else gate_queue @ [g])"

text \<open>The event drain phase: the inner \<open>while event_queue\<close> loop.\<close>

fun process_events ::
  "Circuit \<Rightarrow> (nat \<times> logic) list \<Rightarrow> logic list \<Rightarrow> nat list \<Rightarrow> Gate list
   \<Rightarrow> error + (logic list \<times> nat list \<times> Gate list)" where
  "process_events c [] nv change_count gate_queue = Inr (nv, change_count, gate_queue)"
| "process_events c ((net_id, new_val) # evs) nv change_count gate_queue =
     (if net_id < length nv then
        (if new_val \<noteq> nv ! net_id then
           (if net_id < length change_count then
              process_events c evs (nv[net_id := new_val])
                (change_count[net_id := change_count ! net_id + 1])
                (schedule_fanout (fanout c net_id) gate_queue)
            else Inl IndexError)
         else process_events c evs nv change_count
                (schedule_fanout (fanout c net_id) gate_queue))
      else Inl IndexError)"

text \<open>The gate phase: the inner \<open>while gate_queue\<close> loop.\<close>

fun simulate_gates ::
  "Gate list \<Rightarrow> logic list \<Rightarrow> logic_model \<Rightarrow> nat \<Rightarrow> (nat \<times> logic) list
   \<Rightarrow> error + (nat \<times> (nat \<times> logic) list)" where
  "simulate_gates [] nv m count event_queue = Inr (count, event_queue)"
| "simulate_gates (g # gs) nv m count event_queue =
     (case simulate g nv m of
        Inl e \<Rightarrow> Inl e
      | Inr new_val \<Rightarrow>
          (if output_net g < length nv then
             simulate_gates gs nv m (count + 1)
               (if new_val \<noteq> nv ! output_net g
                then event_queue @ [(output_net g, new_val)] else event_queue)
           else Inl IndexError))"

text \<open>
  The outer \<open>while event_queue\<close> loop.  It need not terminate (a circuit with a
  feedback loop can oscillate), so the result is an option: \<open>None\<close> is a run that
  never returns.
\<close>

partial_function (option) two_list_loop ::
  "Circuit \<Rightarrow> logic_model \<Rightarrow> (nat \<times> logic) list \<Rightarrow> logic list \<Rightarrow> nat list \<Rightarrow> nat
   \<Rightarrow> (nat \<times> (nat \<rightharpoonup> logic)) list \<Rightarrow> nat
   \<Rightarrow> (error + (logic list \<times> nat list \<times> nat \<times> (nat \<times> (nat \<rightharpoonup> logic)) list)) option" where
  "two_list_loop c m event_queue nv change_count count ilog time_unit =
     (if event_queue = [] then Some (Inr (nv, change_count, count, ilog))
      else
        (case process_events c event_queue nv change_count [] of
           Inl e \<Rightarrow> Some (Inl e)
         | Inr (nv1, change_count1, gate_queue) \<Rightarrow>
             (if gate_queue = [] then
                two_list_loop c m [] nv1 change_count1 count ilog time_unit
              else
                (case snapshot (primary_outputs c) nv1 of
                   Inl e \<Rightarrow> Some (Inl e)
                 | Inr snap \<Rightarrow>
                     (case simulate_gates gate_queue nv1 m count [] of
                        Inl e \<Rightarrow> Some (Inl e)
                      | Inr (count1, event_queue1) \<Rightarrow>
                          two_list_loop c m event_queue1 nv1 change_count1 count1
                            (ilog @ [(time_unit, snap)]) (time_unit + 1))))))"

declare two_list_loop.simps [code]

definition TwoList_simulate_vector ::
  "TwoListSimulator \<Rightarrow> (nat \<rightharpoonup> logic)
   \<Rightarrow> (error + (TwoListSimulator \<times> (nat \<times> hazard_kind) list)) option" where
  "TwoList_simulate_vector s input_vector =
     (let c = circuit s; old_values = net_values s;
          change_count = replicate (num_nets s) (0::nat) in
      case queue_inputs (primary_inputs c) input_vector (logic_model s) (net_values s)
             (net_mark s) [] of
        Inl e \<Rightarrow> Some (Inl e)
      | Inr (mark, event_queue) \<Rightarrow>
          (case two_list_loop c (logic_model s) event_queue (net_values s) change_count
                  (gate_sim_count s) (intermediate_log s) 0 of
             None \<Rightarrow> None
           | Some (Inl e) \<Rightarrow> Some (Inl e)
           | Some (Inr (nv, change_count1, count, ilog)) \<Rightarrow>
               (case snapshot (primary_outputs c) nv of
                  Inl e \<Rightarrow> Some (Inl e)
                | Inr snap \<Rightarrow>
                    (case hazard_pass [0..<num_nets s] old_values nv change_count1 [] of
                       Inl e \<Rightarrow> Some (Inl e)
                     | Inr hazards \<Rightarrow>
                         Some (Inr (s\<lparr>net_values := nv, net_mark := mark,
                                      gate_sim_count := count, intermediate_log := ilog,
                                      output_log := output_log s @ [snap]\<rparr>, hazards))))))"

section \<open>Single-list event simulator\<close>

definition SingleListEventSimulator_init :: "Circuit \<Rightarrow> logic_model \<Rightarrow> SingleListEventSimulator" where
  "SingleListEventSimulator_init c m =
     \<lparr>circuit = c, logic_model = m, num_nets = next_net_id c,
      net_values = replicate (next_net_id c) (if m = V3 then LOGIC_U else LOGIC_ZERO),
      gate_sim_count = 0, output_log = [], intermediate_log = [],
      net_mark = (if m = V2 then replicate (next_net_id c) True
                  else replicate (next_net_id c) False)\<rparr>"

text \<open>
  The loop over the fanout of a consumed event: each gate is simulated at once, and
  its new output is queued unless an event with the same net and value is pending.
\<close>

fun simulate_fanout ::
  "Gate list \<Rightarrow> logic list \<Rightarrow> logic_model \<Rightarrow> nat \<Rightarrow> (nat \<times> logic) entry list
   \<Rightarrow> error + (nat \<times> (nat \<times> logic) entry list)" where
  "simulate_fanout [] nv m count event_queue = Inr (count, event_queue)"
| "simulate_fanout (g # gs) nv m count event_queue =
     (case simulate g nv m of
        Inl e \<Rightarrow> Inl e
      | Inr new_out \<Rightarrow>
          (if output_net g < length nv then
             (if new_out \<noteq> nv ! output_net g then
                (let exists = (Item (output_net g, new_out) \<in> set event_queue) in
                 if \<not> exists
                 then simulate_fanout gs nv m (count + 1)
                        (event_queue @ [Item (output_net g, new_out)])
                 else simulate_fanout gs nv m (count + 1) event_queue)
              else simulate_fanout gs nv m (count + 1) event_queue)
           else Inl IndexError))"

partial_function (option) single_list_event_loop ::
  "Circuit \<Rightarrow> logic_model \<Rightarrow> (nat \<times> logic) entry list \<Rightarrow> logic list \<Rightarrow> nat list \<Rightarrow> nat
   \<Rightarrow> (nat \<times> (nat \<rightharpoonup> logic)) list \<Rightarrow> nat
   \<Rightarrow> (error + (logic list \<times> nat list \<times> nat \<times> (nat \<times> (nat \<rightharpoonup> logic)) list)) option" where
  "single_list_event_loop c m event_queue nv change_count count ilog time_unit =
     (case event_queue of
        [] \<Rightarrow> Some (Inr (nv, change_count, count, ilog))
      | MARKER # rest \<Rightarrow>
          (case snapshot (primary_outputs c) nv of
             Inl e \<Rightarrow> Some (Inl e)
           | Inr snap \<Rightarrow>
               single_list_event_loop c m (if rest \<noteq> [] then rest @ [MARKER] else rest)
                 nv change_count count (ilog @ [(time_unit, snap)]) (time_unit + 1))
      | Item (net_id, new_val) # rest \<Rightarrow>
          (if net_id < length nv then
             (if new_val \<noteq> nv ! net_id then
                (if net_id < length change_count then
                   (case simulate_fanout (fanout c net_id) (nv[net_id := new_val]) m count rest of
                      Inl e \<Rightarrow> Some (Inl e)
                    | Inr (count1, event_queue1) \<Rightarrow>
                        single_list_event_loop c m event_queue1 (nv[net_id := new_val])
                          (change_count[net_id := change_count ! net_id + 1])
                          count1 ilog time_unit)
                 else Some (Inl IndexError))
              else
                (case simulate_fanout (fanout c net_id) nv m count rest of
                   Inl e \<Rightarrow> Some (Inl e)
                 | Inr (count1, event_queue1) \<Rightarrow>
                     single_list_event_loop c m event_queue1 nv change_count
                       count1 ilog time_unit))
           else Some (Inl IndexError)))"

declare single_list_event_loop.simps [code]

definition SingleListEvent_simulate_vector ::
  "SingleListEventSimulator \<Rightarrow> (nat \<rightharpoonup> logic)
   \<Rightarrow> (error + (SingleListEventSimulator \<times> (nat \<times> hazard_kind) list)) option" where
  "SingleListEvent_simulate_vector s input_vector =
     (let c = circuit s; old_values = net_values s;
          change_count = replicate (num_nets s) (0::nat) in
      case queue_inputs (primary_inputs c) input_vector (logic_model s) (net_values s)
             (net_mark s) [] of
        Inl e \<Rightarrow> Some (Inl e)
      | Inr (mark, events) \<Rightarrow>
          (case single_list_event_loop c (logic_model s) (map Item events @ [MARKER])
                  (net_values s) change_count (gate_sim_count s) (intermediate_log s) 0 of
             None \<Rightarrow> None
           | Some (Inl e) \<Rightarrow> Some (Inl e)
           | Some (Inr (nv, change_count1, count, ilog)) \<Rightarrow>
               (case snapshot (primary_outputs c) nv of
                  Inl e \<Rightarrow> Some (Inl e)
                | Inr snap \<Rightarrow>
                    (case hazard_pass [0..<num_nets s] old_values nv change_count1 [] of
                       Inl e \<Rightarrow> Some (Inl e)
                     | Inr hazards \<Rightarrow>
                         Some (Inr (s\<lparr>net_values := nv, net_mark := mark,
                                      gate_sim_count := count, intermediate_log := ilog,
                                      output_log := output_log s @ [snap]\<rparr>, hazards))))))"

section \<open>Single-list gate simulator\<close>

definition SingleListGateSimulator_init :: "Circuit \<Rightarrow> logic_model \<Rightarrow> SingleListGateSimulator" where
  "SingleListGateSimulator_init c m =
     \<lparr>circuit = c, logic_model = m, num_nets = next_net_id c,
      net_values = replicate (next_net_id c) (if m = V3 then LOGIC_U else LOGIC_ZERO),
      gate_sim_count = 0, output_log = [], intermediate_log = []\<rparr>"

text \<open>
  The loop over the primary inputs that commits a changed input at once and collects
  it in \<open>changed_inputs\<close>.  The zero-delay and the threaded simulator read their
  inputs the same way and are given loops of their own below.
\<close>

fun commit_inputs ::
  "nat list \<Rightarrow> (nat \<rightharpoonup> logic) \<Rightarrow> logic list \<Rightarrow> nat list \<Rightarrow> error + (logic list \<times> nat list)" where
  "commit_inputs [] iv nv changed_inputs = Inr (nv, changed_inputs)"
| "commit_inputs (net # nets) iv nv changed_inputs =
     (if net < length nv then
        (let val = (case iv net of Some v \<Rightarrow> v | None \<Rightarrow> nv ! net) in
         if val \<noteq> nv ! net
         then commit_inputs nets iv (nv[net := val]) (changed_inputs @ [net])
         else commit_inputs nets iv nv changed_inputs)
      else Inl IndexError)"

text \<open>
  The commit at a marker: \<open>for net, val in temp_net_values.items()\<close>.  The pending
  dictionary is an association list in insertion order.
\<close>

fun commit_temp ::
  "(nat \<times> logic) list \<Rightarrow> logic list \<Rightarrow> nat list \<Rightarrow> error + (logic list \<times> nat list)" where
  "commit_temp [] nv change_count = Inr (nv, change_count)"
| "commit_temp ((net, val) # items) nv change_count =
     (if net < length nv then
        (if val \<noteq> nv ! net then
           (if net < length change_count then
              commit_temp items (nv[net := val]) (change_count[net := change_count ! net + 1])
            else Inl IndexError)
         else commit_temp items nv change_count)
      else Inl IndexError)"

text \<open>
  The loop \<open>while gate_queue\<close>.  Its first statement after the pop is the test
  \<open>'marker' in elem\<close>.  The marker is a dictionary and passes it.  Every other element
  of the queue is a \<open>Gate\<close> object, and a \<open>Gate\<close> defines neither \<open>__contains__\<close> nor
  \<open>__iter__\<close> nor \<open>__getitem__\<close>, so on a gate the test itself raises \<open>TypeError\<close>: the
  statements of the loop body that simulate the gate, write \<open>temp_net_values\<close> and
  flag its fanout are never reached.  The pending dictionary and the flag set therefore
  stay as they are initialised, empty.
\<close>

partial_function (option) single_list_gate_loop ::
  "Circuit \<Rightarrow> logic_model \<Rightarrow> Gate entry list \<Rightarrow> logic list \<Rightarrow> nat list \<Rightarrow> nat
   \<Rightarrow> (nat \<times> (nat \<rightharpoonup> logic)) list \<Rightarrow> nat \<Rightarrow> (nat \<times> logic) list \<Rightarrow> Gate set
   \<Rightarrow> (error + (logic list \<times> nat list \<times> nat \<times> (nat \<times> (nat \<rightharpoonup> logic)) list)) option" where
  "single_list_gate_loop c m gate_queue nv change_count count ilog time_unit
       temp_net_values flagged_next =
     (case gate_queue of
        [] \<Rightarrow> Some (Inr (nv, change_count, count, ilog))
      | MARKER # rest \<Rightarrow>
          (case commit_temp temp_net_values nv change_count of
             Inl e \<Rightarrow> Some (Inl e)
           | Inr (nv1, change_count1) \<Rightarrow>
               (case snapshot (primary_outputs c) nv1 of
                  Inl e \<Rightarrow> Some (Inl e)
                | Inr snap \<Rightarrow>
                    (if rest \<noteq> [] then
                       single_list_gate_loop c m (rest @ [MARKER]) nv1 change_count1 count
                         (ilog @ [(time_unit, snap)]) (time_unit + 1) [] {}
                     else
                       single_list_gate_loop c m rest nv1 change_count1 count
                         (ilog @ [(time_unit, snap)]) (time_unit + 1) [] flagged_next)))
      | Item g # rest \<Rightarrow> Some (Inl TypeError))"

declare single_list_gate_loop.simps [code]

definition SingleListGate_simulate_vector ::
  "SingleListGateSimulator \<Rightarrow> (nat \<rightharpoonup> logic)
   \<Rightarrow> (error + (SingleListGateSimulator \<times> (nat \<times> hazard_kind) list)) option" where
  "SingleListGate_simulate_vector s input_vector =
     (let c = circuit s; old_values = net_values s;
          change_count = replicate (num_nets s) (0::nat) in
      case commit_inputs (primary_inputs c) input_vector (net_values s) [] of
        Inl e \<Rightarrow> Some (Inl e)
      | Inr (nv0, changed_inputs) \<Rightarrow>
          (case single_list_gate_loop c (logic_model s)
                  (map Item (concat (map (fanout c) changed_inputs)) @ [MARKER])
                  nv0 change_count (gate_sim_count s) (intermediate_log s) 0 [] {} of
             None \<Rightarrow> None
           | Some (Inl e) \<Rightarrow> Some (Inl e)
           | Some (Inr (nv, change_count1, count, ilog)) \<Rightarrow>
               (case snapshot (primary_outputs c) nv of
                  Inl e \<Rightarrow> Some (Inl e)
                | Inr snap \<Rightarrow>
                    (case hazard_pass [0..<num_nets s] old_values nv change_count1 [] of
                       Inl e \<Rightarrow> Some (Inl e)
                     | Inr hazards \<Rightarrow>
                         Some (Inr (s\<lparr>net_values := nv,
                                      gate_sim_count := count, intermediate_log := ilog,
                                      output_log := output_log s @ [snap]\<rparr>, hazards))))))"

section \<open>Zero-delay simulator\<close>

text \<open>
  The constructor levelizes the circuit.  The dictionary \<open>indeg\<close> has gates as keys;
  it is an association list, read by \<open>map_of\<close> and written by \<open>AList.update\<close>.
  \<open>indeg[g] += 1\<close> once for every driver of \<open>net\<close>:
\<close>

definition bump_indeg :: "(Gate \<times> int) list \<Rightarrow> Gate \<Rightarrow> nat \<Rightarrow> error + (Gate \<times> int) list" where
  "bump_indeg indeg g n =
     (if n = 0 then Inr indeg
      else (case map_of indeg g of
              None \<Rightarrow> Inl KeyError
            | Some d \<Rightarrow> Inr (AList.update g (d + int n) indeg)))"

fun count_drivers :: "Circuit \<Rightarrow> Gate \<Rightarrow> nat list \<Rightarrow> (Gate \<times> int) list \<Rightarrow> error + (Gate \<times> int) list" where
  "count_drivers c g [] indeg = Inr indeg"
| "count_drivers c g (net # nets) indeg =
     (case bump_indeg indeg g (length (get_gate_by_output c net)) of
        Inl e \<Rightarrow> Inl e
      | Inr indeg1 \<Rightarrow> count_drivers c g nets indeg1)"

fun count_all_drivers :: "Circuit \<Rightarrow> Gate list \<Rightarrow> (Gate \<times> int) list \<Rightarrow> error + (Gate \<times> int) list" where
  "count_all_drivers c [] indeg = Inr indeg"
| "count_all_drivers c (g # gs) indeg =
     (case count_drivers c g (inputs g) indeg of
        Inl e \<Rightarrow> Inl e
      | Inr indeg1 \<Rightarrow> count_all_drivers c gs indeg1)"

text \<open>The gates of in-degree zero get level 0 and start the queue.\<close>

fun level_roots ::
  "Gate list \<Rightarrow> (Gate \<times> int) list \<Rightarrow> (nat \<rightharpoonup> nat) \<Rightarrow> Gate list
   \<Rightarrow> error + ((nat \<rightharpoonup> nat) \<times> Gate list)" where
  "level_roots [] indeg lv queue = Inr (lv, queue)"
| "level_roots (g # gs) indeg lv queue =
     (case map_of indeg g of
        None \<Rightarrow> Inl KeyError
      | Some d \<Rightarrow>
          (if d = 0 then level_roots gs indeg (lv(gid g \<mapsto> 0)) (queue @ [g])
           else level_roots gs indeg lv queue))"

text \<open>\<open>for h in fanout[out_net]\<close> inside the levelization loop.\<close>

fun level_fanout ::
  "Gate list \<Rightarrow> nat \<Rightarrow> (Gate \<times> int) list \<Rightarrow> (nat \<rightharpoonup> nat) \<Rightarrow> Gate list
   \<Rightarrow> error + ((Gate \<times> int) list \<times> (nat \<rightharpoonup> nat) \<times> Gate list)" where
  "level_fanout [] lvl indeg lv queue = Inr (indeg, lv, queue)"
| "level_fanout (h # hs) lvl indeg lv queue =
     (case map_of indeg h of
        None \<Rightarrow> Inl KeyError
      | Some d \<Rightarrow>
          (if d - 1 = 0
           then level_fanout hs lvl (AList.update h (d - 1) indeg) (lv(gid h \<mapsto> lvl + 1))
                  (queue @ [h])
           else level_fanout hs lvl (AList.update h (d - 1) indeg) lv queue))"

definition positive_entries :: "(Gate \<times> int) list \<Rightarrow> nat" where
  "positive_entries indeg = length (filter (\<lambda>p. 0 < snd p) indeg)"

lemma positive_entries_update:
  "map_of indeg h = Some d \<Longrightarrow>
   positive_entries (AList.update h v indeg) + (if 0 < d then 1 else 0)
     = positive_entries indeg + (if 0 < v then 1 else 0)"
  by (induction indeg) (auto simp: positive_entries_def split: if_splits)

lemma level_fanout_measure:
  "level_fanout hs lvl indeg lv queue = Inr (indeg1, lv1, queue1) \<Longrightarrow>
   length queue1 + positive_entries indeg1 \<le> length queue + positive_entries indeg"
proof (induction hs arbitrary: indeg lv queue)
  case Nil
  then show ?case by simp
next
  case (Cons h hs)
  from Cons.prems obtain d where d: "map_of indeg h = Some d"
    by (auto split: option.splits)
  show ?case
  proof (cases "d - 1 = 0")
    case True
    with Cons.prems d
    have "level_fanout hs lvl (AList.update h (d - 1) indeg) (lv(gid h \<mapsto> lvl + 1)) (queue @ [h])
            = Inr (indeg1, lv1, queue1)"
      by simp
    from Cons.IH [OF this] positive_entries_update [OF d, of "d - 1"] True
    show ?thesis by simp
  next
    case False
    with Cons.prems d
    have "level_fanout hs lvl (AList.update h (d - 1) indeg) lv queue = Inr (indeg1, lv1, queue1)"
      by simp
    from Cons.IH [OF this] positive_entries_update [OF d, of "d - 1"] False
    show ?thesis by (simp split: if_splits)
  qed
qed

text \<open>
  The levelization loop \<open>while queue\<close>.  It terminates on every circuit: an iteration
  removes one gate from the queue, and a gate is appended only when its in-degree
  falls from one to zero.
\<close>

function level_loop ::
  "Circuit \<Rightarrow> Gate list \<Rightarrow> (Gate \<times> int) list \<Rightarrow> (nat \<rightharpoonup> nat) \<Rightarrow> nat
   \<Rightarrow> error + ((nat \<rightharpoonup> nat) \<times> nat)" where
  "level_loop c queue indeg lv max_lv =
     (case queue of
        [] \<Rightarrow> Inr (lv, max_lv)
      | g # rest \<Rightarrow>
          (case lv (gid g) of
             None \<Rightarrow> Inl KeyError
           | Some lvl \<Rightarrow>
               (case level_fanout (fanout c (output_net g)) lvl indeg lv rest of
                  Inl e \<Rightarrow> Inl e
                | Inr (indeg1, lv1, queue1) \<Rightarrow>
                    level_loop c queue1 indeg1 lv1 (max max_lv lvl))))"
  by pat_completeness auto

termination
proof (relation "measure (\<lambda>(c, queue, indeg, lv, max_lv). length queue + positive_entries indeg)")
  show "wf (measure (\<lambda>(c, queue, indeg, lv, max_lv). length queue + positive_entries indeg))"
    by simp
next
  fix c :: Circuit and queue :: "Gate list" and indeg :: "(Gate \<times> int) list"
    and lv :: "nat \<rightharpoonup> nat" and max_lv :: nat and g rest lvl r indeg1 p lv1 queue1
  assume "queue = g # rest"
    and "level_fanout (fanout c (output_net g)) lvl indeg lv rest = Inr r"
    and "(indeg1, p) = r" and "(lv1, queue1) = p"
  then have "length queue1 + positive_entries indeg1 \<le> length rest + positive_entries indeg"
    by (auto dest: level_fanout_measure)
  with \<open>queue = g # rest\<close>
  show "((c, queue1, indeg1, lv1, max max_lv lvl), (c, queue, indeg, lv, max_lv))
        \<in> measure (\<lambda>(c, queue, indeg, lv, max_lv). length queue + positive_entries indeg)"
    by simp
qed

definition ZeroDelaySimulator_init :: "Circuit \<Rightarrow> logic_model \<Rightarrow> error + ZeroDelaySimulator" where
  "ZeroDelaySimulator_init c m =
     (case count_all_drivers c (gates c) (foldl (\<lambda>d g. AList.update g 0 d) [] (gates c)) of
        Inl e \<Rightarrow> Inl e
      | Inr indeg \<Rightarrow>
          (case level_roots (gates c) indeg Map.empty [] of
             Inl e \<Rightarrow> Inl e
           | Inr (lv0, queue) \<Rightarrow>
               (case level_loop c queue indeg lv0 0 of
                  Inl e \<Rightarrow> Inl e
                | Inr (lv, max_lv) \<Rightarrow>
                    Inr \<lparr>circuit = c, logic_model = m, num_nets = next_net_id c,
                         net_values = replicate (next_net_id c) LOGIC_ZERO,
                         gate_sim_count = 0, output_log = [], intermediate_log = [],
                         levels = lv, max_level = max_lv\<rparr>)))"

text \<open>
  \<open>level_queues\<close> has the keys \<open>0..max_level\<close>; it is the list of its buckets, and a
  level beyond the list is a missing key.  \<open>levels.get(g.id, 0)\<close>:
\<close>

definition level_of :: "(nat \<rightharpoonup> nat) \<Rightarrow> Gate \<Rightarrow> nat" where
  "level_of lv g = (case lv (gid g) of Some l \<Rightarrow> l | None \<Rightarrow> 0)"

text \<open>Scheduling the fanout of a changed primary input.\<close>

fun enqueue_levels :: "Gate list \<Rightarrow> (nat \<rightharpoonup> nat) \<Rightarrow> Gate list list \<Rightarrow> error + Gate list list" where
  "enqueue_levels [] lv level_queues = Inr level_queues"
| "enqueue_levels (g # gs) lv level_queues =
     (let lvl = level_of lv g in
      if lvl < length level_queues then
        enqueue_levels gs lv
          (if g \<in> set (level_queues ! lvl) then level_queues
           else level_queues[lvl := level_queues ! lvl @ [g]])
      else Inl KeyError)"

fun zero_delay_inputs ::
  "Circuit \<Rightarrow> nat list \<Rightarrow> (nat \<rightharpoonup> logic) \<Rightarrow> (nat \<rightharpoonup> nat) \<Rightarrow> logic list \<Rightarrow> Gate list list
   \<Rightarrow> error + (logic list \<times> Gate list list)" where
  "zero_delay_inputs c [] iv lv nv level_queues = Inr (nv, level_queues)"
| "zero_delay_inputs c (net # nets) iv lv nv level_queues =
     (if net < length nv then
        (let new_val = (case iv net of Some v \<Rightarrow> v | None \<Rightarrow> nv ! net) in
         if new_val \<noteq> nv ! net then
           (case enqueue_levels (fanout c net) lv level_queues of
              Inl e \<Rightarrow> Inl e
            | Inr level_queues1 \<Rightarrow>
                zero_delay_inputs c nets iv lv (nv[net := new_val]) level_queues1)
         else zero_delay_inputs c nets iv lv nv level_queues)
      else Inl IndexError)"

text \<open>
  Scheduling the fanout of a gate whose output changed at level \<open>lvl\<close>; a reader on a
  lower level sets the flag \<open>iteration\<close>.
\<close>

fun enqueue_fanout ::
  "Gate list \<Rightarrow> (nat \<rightharpoonup> nat) \<Rightarrow> nat \<Rightarrow> Gate list list \<Rightarrow> bool \<Rightarrow> error + (Gate list list \<times> bool)" where
  "enqueue_fanout [] lv lvl level_queues iteration = Inr (level_queues, iteration)"
| "enqueue_fanout (h # hs) lv lvl level_queues iteration =
     (let h_lvl = level_of lv h;
          iteration1 = (if h_lvl < lvl then True else iteration) in
      if h_lvl < length level_queues then
        enqueue_fanout hs lv lvl
          (if h \<in> set (level_queues ! h_lvl) then level_queues
           else level_queues[h_lvl := level_queues ! h_lvl @ [h]])
          iteration1
      else Inl KeyError)"

text \<open>
  The loop \<open>while level_queues[lvl]\<close>.  A reader on the level being drained is put
  back into the bucket being drained, so the loop need not terminate: the result is an
  option.
\<close>

partial_function (option) drain_level ::
  "Circuit \<Rightarrow> logic_model \<Rightarrow> (nat \<rightharpoonup> nat) \<Rightarrow> nat \<Rightarrow> Gate list list \<Rightarrow> logic list \<Rightarrow> nat \<Rightarrow> bool
   \<Rightarrow> (error + (Gate list list \<times> logic list \<times> nat \<times> bool)) option" where
  "drain_level c m lv lvl level_queues nv count iteration =
     (if lvl < length level_queues then
        (case level_queues ! lvl of
           [] \<Rightarrow> Some (Inr (level_queues, nv, count, iteration))
         | g # rest \<Rightarrow>
             (case simulate g nv m of
                Inl e \<Rightarrow> Some (Inl e)
              | Inr new_val \<Rightarrow>
                  (if output_net g < length nv then
                     (if new_val \<noteq> nv ! output_net g then
                        (case enqueue_fanout (fanout c (output_net g)) lv lvl
                                (level_queues[lvl := rest]) iteration of
                           Inl e \<Rightarrow> Some (Inl e)
                         | Inr (level_queues1, iteration1) \<Rightarrow>
                             drain_level c m lv lvl level_queues1
                               (nv[output_net g := new_val]) (count + 1) iteration1)
                      else
                        drain_level c m lv lvl (level_queues[lvl := rest]) nv (count + 1)
                          iteration)
                   else Some (Inl IndexError))))
      else Some (Inl KeyError))"

declare drain_level.simps [code]

text \<open>\<open>for lvl in range(self.max_level+1)\<close>\<close>

fun sweep_levels ::
  "Circuit \<Rightarrow> logic_model \<Rightarrow> (nat \<rightharpoonup> nat) \<Rightarrow> nat list \<Rightarrow> Gate list list \<Rightarrow> logic list \<Rightarrow> nat \<Rightarrow> bool
   \<Rightarrow> (error + (Gate list list \<times> logic list \<times> nat \<times> bool)) option" where
  "sweep_levels c m lv [] level_queues nv count iteration =
     Some (Inr (level_queues, nv, count, iteration))"
| "sweep_levels c m lv (lvl # lvls) level_queues nv count iteration =
     (case drain_level c m lv lvl level_queues nv count iteration of
        None \<Rightarrow> None
      | Some (Inl e) \<Rightarrow> Some (Inl e)
      | Some (Inr (level_queues1, nv1, count1, iteration1)) \<Rightarrow>
          sweep_levels c m lv lvls level_queues1 nv1 count1 iteration1)"

text \<open>\<open>while iteration and pass_num < 2\<close>\<close>

function zero_delay_passes ::
  "Circuit \<Rightarrow> logic_model \<Rightarrow> (nat \<rightharpoonup> nat) \<Rightarrow> nat \<Rightarrow> Gate list list \<Rightarrow> logic list \<Rightarrow> nat \<Rightarrow> bool \<Rightarrow> nat
   \<Rightarrow> (error + (logic list \<times> nat)) option" where
  "zero_delay_passes c m lv max_lv level_queues nv count iteration pass_num =
     (if iteration \<and> pass_num < 2 then
        (case sweep_levels c m lv [0..<max_lv + 1] level_queues nv count False of
           None \<Rightarrow> None
         | Some (Inl e) \<Rightarrow> Some (Inl e)
         | Some (Inr (level_queues1, nv1, count1, iteration1)) \<Rightarrow>
             zero_delay_passes c m lv max_lv level_queues1 nv1 count1 iteration1 (pass_num + 1))
      else Some (Inr (nv, count)))"
  by pat_completeness auto

termination
  by (relation "measure (\<lambda>(c, m, lv, max_lv, level_queues, nv, count, iteration, pass_num).
        2 - pass_num)") auto

definition ZeroDelay_simulate_vector ::
  "ZeroDelaySimulator \<Rightarrow> (nat \<rightharpoonup> logic)
   \<Rightarrow> (error + (ZeroDelaySimulator \<times> (nat \<times> hazard_kind) list)) option" where
  "ZeroDelay_simulate_vector s input_vector =
     (let c = circuit s; hazards = [];
          level_queues = replicate (max_level s + 1) [] in
      case zero_delay_inputs c (primary_inputs c) input_vector (levels s) (net_values s)
             level_queues of
        Inl e \<Rightarrow> Some (Inl e)
      | Inr (nv0, level_queues1) \<Rightarrow>
          (case zero_delay_passes c (logic_model s) (levels s) (max_level s) level_queues1
                  nv0 (gate_sim_count s) True 0 of
             None \<Rightarrow> None
           | Some (Inl e) \<Rightarrow> Some (Inl e)
           | Some (Inr (nv, count)) \<Rightarrow>
               (case snapshot (primary_outputs c) nv of
                  Inl e \<Rightarrow> Some (Inl e)
                | Inr snap \<Rightarrow>
                    Some (Inr (s\<lparr>net_values := nv, gate_sim_count := count,
                                 output_log := output_log s @ [snap]\<rparr>, hazards)))))"

section \<open>Threaded simulator\<close>

definition ThreadedSimulator_init :: "Circuit \<Rightarrow> logic_model \<Rightarrow> ThreadedSimulator" where
  "ThreadedSimulator_init c m =
     \<lparr>circuit = c, logic_model = m, num_nets = next_net_id c,
      net_values = replicate (next_net_id c) (if m = V3 then LOGIC_U else LOGIC_ZERO),
      gate_sim_count = 0, output_log = [], event_stack = [], gate_stack = []\<rparr>"

text \<open>The loop over the primary inputs pushes a net event for every changed input.\<close>

fun push_inputs ::
  "nat list \<Rightarrow> (nat \<rightharpoonup> logic) \<Rightarrow> logic list \<Rightarrow> (nat \<times> logic) list \<Rightarrow> error + (nat \<times> logic) list" where
  "push_inputs [] iv nv stack = Inr stack"
| "push_inputs (net # nets) iv nv stack =
     (if net < length nv then
        (let new_val = (case iv net of Some v \<Rightarrow> v | None \<Rightarrow> nv ! net) in
         if new_val \<noteq> nv ! net then push_inputs nets iv nv ((net, new_val) # stack)
         else push_inputs nets iv nv stack)
      else Inl IndexError)"

text \<open>\<open>for g in fanout[net_id]: gate_stack.append(GateTask(sim, g))\<close>\<close>

fun push_gates :: "Gate list \<Rightarrow> Gate list \<Rightarrow> Gate list" where
  "push_gates [] stack = stack"
| "push_gates (g # gs) stack = push_gates gs (g # stack)"

text \<open>
  The loop \<open>while self.event_stack or self.gate_stack\<close>: a net event task if there is
  one, else a gate task.
\<close>

partial_function (option) threaded_loop ::
  "Circuit \<Rightarrow> logic_model \<Rightarrow> (nat \<times> logic) list \<Rightarrow> Gate list \<Rightarrow> logic list \<Rightarrow> nat list \<Rightarrow> nat
   \<Rightarrow> (error + (logic list \<times> nat list \<times> nat)) option" where
  "threaded_loop c m events gate_tasks nv change_count count =
     (case events of
        (net_id, val) # events1 \<Rightarrow>
          (if net_id < length nv then
             (if val \<noteq> nv ! net_id then
                (if net_id < length change_count then
                   threaded_loop c m events1 (push_gates (fanout c net_id) gate_tasks)
                     (nv[net_id := val]) (change_count[net_id := change_count ! net_id + 1])
                     count
                 else Some (Inl IndexError))
              else
                threaded_loop c m events1 (push_gates (fanout c net_id) gate_tasks)
                  nv change_count count)
           else Some (Inl IndexError))
      | [] \<Rightarrow>
          (case gate_tasks of
             [] \<Rightarrow> Some (Inr (nv, change_count, count))
           | g # gate_tasks1 \<Rightarrow>
               (case simulate g nv m of
                  Inl e \<Rightarrow> Some (Inl e)
                | Inr new_val \<Rightarrow>
                    (if output_net g < length nv then
                       (if new_val \<noteq> nv ! output_net g
                        then threaded_loop c m [(output_net g, new_val)] gate_tasks1
                               nv change_count (count + 1)
                        else threaded_loop c m [] gate_tasks1 nv change_count (count + 1))
                     else Some (Inl IndexError)))))"

declare threaded_loop.simps [code]

definition Threaded_simulate_vector ::
  "ThreadedSimulator \<Rightarrow> (nat \<rightharpoonup> logic)
   \<Rightarrow> (error + (ThreadedSimulator \<times> (nat \<times> hazard_kind) list)) option" where
  "Threaded_simulate_vector s input_vector =
     (let c = circuit s; old_values = net_values s;
          change_count = replicate (num_nets s) (0::nat) in
      case push_inputs (primary_inputs c) input_vector (net_values s) (event_stack s) of
        Inl e \<Rightarrow> Some (Inl e)
      | Inr events \<Rightarrow>
          (case threaded_loop c (logic_model s) events (gate_stack s) (net_values s)
                  change_count (gate_sim_count s) of
             None \<Rightarrow> None
           | Some (Inl e) \<Rightarrow> Some (Inl e)
           | Some (Inr (nv, change_count1, count)) \<Rightarrow>
               (case snapshot (primary_outputs c) nv of
                  Inl e \<Rightarrow> Some (Inl e)
                | Inr snap \<Rightarrow>
                    (case hazard_pass [0..<num_nets s] old_values nv change_count1 [] of
                       Inl e \<Rightarrow> Some (Inl e)
                     | Inr hazards \<Rightarrow>
                         Some (Inr (s\<lparr>net_values := nv, gate_sim_count := count,
                                      output_log := output_log s @ [snap],
                                      event_stack := [], gate_stack := []\<rparr>, hazards))))))"

section \<open>Runs and example circuits\<close>

text \<open>
  A run feeds a sequence of input vectors to one simulator, as the example driver
  does with \<open>for vec in vectors: hazards = sim.simulate_vector(vec)\<close>; it returns the
  final simulator and the hazard list of every call.
\<close>

fun run_vectors ::
  "('s \<Rightarrow> (nat \<rightharpoonup> logic) \<Rightarrow> (error + ('s \<times> (nat \<times> hazard_kind) list)) option)
   \<Rightarrow> 's \<Rightarrow> (nat \<rightharpoonup> logic) list
   \<Rightarrow> (error + ('s \<times> (nat \<times> hazard_kind) list list)) option" where
  "run_vectors step s [] = Some (Inr (s, []))"
| "run_vectors step s (v # vs) =
     (case step s v of
        None \<Rightarrow> None
      | Some (Inl e) \<Rightarrow> Some (Inl e)
      | Some (Inr (s1, hazards)) \<Rightarrow>
          (case run_vectors step s1 vs of
             None \<Rightarrow> None
           | Some (Inl e) \<Rightarrow> Some (Inl e)
           | Some (Inr (s2, hs)) \<Rightarrow> Some (Inr (s2, hazards # hs))))"

text \<open>Scenario S1 of the specification: inputs A, B; output Y; \<open>AND(A,B) \<rightarrow> Y\<close>.\<close>

definition and_circuit :: Circuit where
  "and_circuit =
     fst (add_gate
       (set_primary_outputs (set_primary_inputs Circuit_init [''A'', ''B'']) [''Y''])
       ''AND'' [''A'', ''B''] ''Y'')"

text \<open>Input A; output Y; \<open>NOT(A) \<rightarrow> Y\<close>.\<close>

definition not_circuit :: Circuit where
  "not_circuit =
     fst (add_gate
       (set_primary_outputs (set_primary_inputs Circuit_init [''A'']) [''Y''])
       ''NOT'' [''A''] ''Y'')"

text \<open>Inputs A, B; output Y; \<open>XOR(A,B) \<rightarrow> Y\<close>.\<close>

definition xor_circuit :: Circuit where
  "xor_circuit =
     fst (add_gate
       (set_primary_outputs (set_primary_inputs Circuit_init [''A'', ''B'']) [''Y''])
       ''XOR'' [''A'', ''B''] ''Y'')"


text \<open>
  A two-gate feedback loop, scenario S5 of the specification: input A; output Y;
  \<open>NAND(A,Y) \<rightarrow> X\<close>, \<open>AND(X) \<rightarrow> Y\<close>.
\<close>

definition loop_circuit :: Circuit where
  "loop_circuit =
     fst (add_gate
       (fst (add_gate
         (set_primary_outputs (set_primary_inputs Circuit_init [''A'']) [''Y''])
         ''NAND'' [''A'', ''Y''] ''X''))
       ''AND'' [''X''] ''Y'')"

text \<open>
  A circuit with a primary input that no gate reads: inputs C, A, B; output Y;
  \<open>AND(A,B) \<rightarrow> Y\<close>.
\<close>

definition spare_input_circuit :: Circuit where
  "spare_input_circuit =
     fst (add_gate
       (set_primary_outputs (set_primary_inputs Circuit_init [''C'', ''A'', ''B'']) [''Y''])
       ''AND'' [''A'', ''B''] ''Y'')"


text \<open>
  The two gates of \<open>loop_circuit\<close>, and the four states (level buckets and net values)
  that the zero-delay sweep of level 0 runs through on it once input A is 1.
\<close>

definition loop_nand :: Gate where
  "loop_nand = \<lparr>gid = 0, gtype = NAND, inputs = [0, 1], output_net = 2\<rparr>"

definition loop_and :: Gate where
  "loop_and = \<lparr>gid = 1, gtype = AND, inputs = [2], output_net = 1\<rparr>"

definition oscillation :: "(Gate list list \<times> logic list) set" where
  "oscillation =
     {([[loop_nand]], [LOGIC_ONE, LOGIC_ZERO, LOGIC_ZERO]),
      ([[loop_and]], [LOGIC_ONE, LOGIC_ZERO, LOGIC_ONE]),
      ([[loop_nand]], [LOGIC_ONE, LOGIC_ONE, LOGIC_ONE]),
      ([[loop_and]], [LOGIC_ONE, LOGIC_ONE, LOGIC_ZERO])}"

section \<open>The change counters at the end of a call\<close>






section \<open>Two-valued states\<close>

text \<open>
  The values of 2-valued logic, and the simulator states that hold no other value in
  the net-values array and in the output log.
\<close>

definition two_valued :: "logic set" where
  "two_valued = {LOGIC_ZERO, LOGIC_ONE}"

definition two_valued_state :: "'a Simulator_scheme \<Rightarrow> bool" where
  "two_valued_state s \<longleftrightarrow>
     set (net_values s) \<subseteq> two_valued \<and> \<Union> (ran ` set (output_log s)) \<subseteq> two_valued"

section \<open>Pending gate evaluations and net ranges\<close>



section \<open>Properties of the gate evaluators\<close>

text \<open>
  C2.  In 3-valued mode \<open>logic_and\<close> is to return 0 whenever some input net holds 0,
  and \<open>logic_or\<close> 1 whenever some input net holds 1, whatever the order of the inputs.
  The loops return at the first input that is unknown: with the unknown input first
  and the controlling input second, both return \<open>U\<close>.
\<close>

theorem logic_and_or_unknown_before_controlling:
  "logic_and [0, 1] [LOGIC_U, LOGIC_ZERO] V3 = Inr LOGIC_U
   \<and> logic_or [0, 1] [LOGIC_U, LOGIC_ONE] V3 = Inr LOGIC_U"
  by simp

section \<open>Properties of the circuit builder\<close>

lemma add_net_frame:
  "gates (fst (add_net c n)) = gates c"
  "fanout (fst (add_net c n)) = fanout c"
  "primary_inputs (fst (add_net c n)) = primary_inputs c"
  "primary_outputs (fst (add_net c n)) = primary_outputs c"
  by (simp_all add: add_net_def split: option.splits)

lemma add_net_dom:
  "dom (net_id_map (fst (add_net c n))) = insert n (dom (net_id_map c))"
  by (auto simp: add_net_def split: option.splits)

lemma add_net_next:
  "next_net_id (fst (add_net c n)) =
     next_net_id c + (if n \<in> dom (net_id_map c) then 0 else 1)"
  by (auto simp: add_net_def split: option.splits)

lemma add_net_names:
  "net_names (fst (add_net c n)) =
     net_names c @ (if n \<in> dom (net_id_map c) then [] else [n])"
  by (auto simp: add_net_def split: option.splits)

lemma add_nets_Cons_fst:
  "fst (add_nets c (n # ns)) = fst (add_nets (fst (add_net c n)) ns)"
  by (simp add: case_prod_beta)

declare add_nets.simps(2) [simp del]

lemma add_nets_frame:
  "gates (fst (add_nets c ns)) = gates c"
  "fanout (fst (add_nets c ns)) = fanout c"
  "primary_inputs (fst (add_nets c ns)) = primary_inputs c"
  "primary_outputs (fst (add_nets c ns)) = primary_outputs c"
  by (induction ns arbitrary: c; simp add: add_nets_Cons_fst add_net_frame)+

lemma add_nets_dom:
  "dom (net_id_map (fst (add_nets c ns))) = dom (net_id_map c) \<union> set ns"
  by (induction ns arbitrary: c) (simp_all add: add_nets_Cons_fst add_net_dom)

lemma card_new_names:
  assumes "finite A"
  shows "card (insert n A - D) = (if n \<in> D then 0 else 1) + card (A - insert n D)"
proof (cases "n \<in> D")
  case True
  then have "card (insert n A - D) = card (A - insert n D)"
    by (simp add: insert_Diff_if insert_absorb)
  with True show ?thesis by (simp only: if_True add_0)
next
  case False
  have fin: "finite (A - insert n D)" using assms by simp
  have notin: "n \<notin> A - insert n D" by simp
  from False have "insert n A - D = insert n (A - insert n D)" by auto
  then have "card (insert n A - D) = card (insert n (A - insert n D))"
    by (rule arg_cong)
  also have "\<dots> = Suc (card (A - insert n D))"
    using fin notin by (rule card_insert_disjoint)
  finally show ?thesis using False by (simp only: if_False plus_1_eq_Suc)
qed

lemma add_nets_next:
  "next_net_id (fst (add_nets c ns)) =
     next_net_id c + card (set ns - dom (net_id_map c))"
proof (induction ns arbitrary: c)
  case Nil
  show ?case by simp
next
  case (Cons n ns)
  have "card (set (n # ns) - dom (net_id_map c))
          = (if n \<in> dom (net_id_map c) then 0 else 1)
            + card (set ns - insert n (dom (net_id_map c)))"
    using card_new_names [of "set ns" n "dom (net_id_map c)"] by simp
  then show ?case
    by (simp add: add_nets_Cons_fst Cons.IH add_net_dom add_net_next)
qed

lemma add_nets_names:
  "set (net_names (fst (add_nets c ns))) =
     set (net_names c) \<union> (set ns - dom (net_id_map c))"
proof (induction ns arbitrary: c)
  case Nil
  show ?case by simp
next
  case (Cons n ns)
  show ?case
    by (auto simp: add_nets_Cons_fst Cons.IH add_net_dom add_net_names)
qed

lemma add_nets_snoc_fst:
  "fst (add_net (fst (add_nets c ns)) n) = fst (add_nets c (ns @ [n]))"
proof (induction ns arbitrary: c)
  case Nil
  show ?case by (simp add: add_nets.simps(2) case_prod_beta)
next
  case (Cons a ns)
  then show ?case by (simp add: add_nets_Cons_fst)
qed

lemma add_gate_error:
  assumes "GATE_FUNCS (upper t) = None"
  shows "add_gate c t ins out = (fst (add_net (fst (add_nets c ins)) out), Inl ValueError)"
  using assms by (simp add: add_gate_def Gate_init_def case_prod_beta)

lemma add_gate_ok:
  assumes "GATE_FUNCS (upper t) = Some k"
  shows "add_gate c t ins out =
    (let c2 = fst (add_net (fst (add_nets c ins)) out);
         g = \<lparr>gid = length (gates c), gtype = k, inputs = snd (add_nets c ins),
              output_net = snd (add_net (fst (add_nets c ins)) out)\<rparr>
     in (c2\<lparr>gates := gates c @ [g], fanout := add_fanout (fanout c) (snd (add_nets c ins)) g\<rparr>,
         Inr g))"
  using assms
  by (simp add: add_gate_def Gate_init_def case_prod_beta Let_def add_nets_frame add_net_frame)

text \<open>
  C9.  When \<open>add_gate\<close> is given an unsupported gate type it raises, after the nets
  have been added: every name among the inputs and the output is in \<open>net_id_map\<close>,
  the missing ones are new entries of \<open>net_names\<close> and have advanced \<open>next_net_id\<close>,
  and the gate list and the fanout index are as they were.
\<close>

theorem add_gate_unsupported_not_atomic:
  assumes "GATE_FUNCS (upper t) = None"
  shows "snd (add_gate c t ins out) = Inl ValueError
    \<and> dom (net_id_map (fst (add_gate c t ins out))) = dom (net_id_map c) \<union> set ins \<union> {out}
    \<and> set (net_names (fst (add_gate c t ins out)))
        = set (net_names c) \<union> (set ins \<union> {out} - dom (net_id_map c))
    \<and> next_net_id (fst (add_gate c t ins out))
        = next_net_id c + card (set ins \<union> {out} - dom (net_id_map c))
    \<and> gates (fst (add_gate c t ins out)) = gates c
    \<and> fanout (fst (add_gate c t ins out)) = fanout c"
proof -
  let ?c2 = "fst (add_net (fst (add_nets c ins)) out)"
  let ?D = "dom (net_id_map c)"
  have r: "add_gate c t ins out = (?c2, Inl ValueError)"
    using assms by (rule add_gate_error)
  have d: "dom (net_id_map ?c2) = ?D \<union> set ins \<union> {out}"
    by (simp add: add_net_dom add_nets_dom)
  have nm: "set (net_names ?c2) = set (net_names c) \<union> (set ins \<union> {out} - ?D)"
    by (auto simp: add_net_names add_nets_names add_nets_dom)
  have nx0: "next_net_id ?c2 = next_net_id c + card (set (ins @ [out]) - ?D)"
    by (simp only: add_nets_snoc_fst add_nets_next)
  have "set (ins @ [out]) = set ins \<union> {out}" by simp
  with nx0 have nx: "next_net_id ?c2 = next_net_id c + card (set ins \<union> {out} - ?D)"
    by (simp only:)
  have g: "gates ?c2 = gates c" by (simp add: add_net_frame add_nets_frame)
  have f: "fanout ?c2 = fanout c" by (simp add: add_net_frame add_nets_frame)
  show ?thesis
    unfolding r fst_conv snd_conv using d nm nx g f by (intro conjI) (rule refl, assumption+)
qed

theorem add_gate_unsupported_not_atomic_witness:
  "GATE_FUNCS (upper ''BUF'') = None
   \<and> snd (add_gate Circuit_init ''BUF'' [''A''] ''Y'') = Inl ValueError
   \<and> dom (net_id_map (fst (add_gate Circuit_init ''BUF'' [''A''] ''Y''))) = {''A'', ''Y''}
   \<and> gates (fst (add_gate Circuit_init ''BUF'' [''A''] ''Y'')) = []"
proof -
  have h: "GATE_FUNCS (upper ''BUF'') = None"
    by (simp add: GATE_FUNCS_def upper_def upper_char_def)
  have e: "dom (net_id_map Circuit_init) = {}" "gates Circuit_init = []"
    by (simp_all add: Circuit_init_def)
  show ?thesis
    using h add_gate_unsupported_not_atomic [OF h, of Circuit_init "[''A'']" "''Y''"] e
    by (simp add: insert_commute)
qed

text \<open>
  C8.  The claim is that a NOT gate with an input list of any length but one is
  refused with an arity error at construction.  The builder has no arity check: a NOT
  gate with two inputs is constructed and appended to the gate list.
\<close>

theorem add_gate_not_two_inputs_accepted:
  "snd (add_gate Circuit_init ''NOT'' [''A'', ''B''] ''Y'')
     = Inr \<lparr>gid = 0, gtype = NOT, inputs = [0, 1], output_net = 2\<rparr>
   \<and> gates (fst (add_gate Circuit_init ''NOT'' [''A'', ''B''] ''Y''))
     = [\<lparr>gid = 0, gtype = NOT, inputs = [0, 1], output_net = 2\<rparr>]"
  by (simp add: add_gate_def add_nets.simps add_net_def Circuit_init_def Gate_init_def
      GATE_FUNCS_def upper_def upper_char_def)

text \<open>
  C8, as amended.  For a gate type that reads \<open>NOT\<close> after \<open>upper()\<close> and an input list
  of any length, \<open>add_gate\<close> raises nothing: it returns a NOT gate with as many inputs
  as names were given, and that gate is appended to the gate list.
\<close>

theorem add_gate_not_any_arity:
  assumes "upper t = ''NOT''"
  shows "\<exists>g. snd (add_gate c t ins out) = Inr g
    \<and> gtype g = NOT \<and> length (inputs g) = length ins
    \<and> gates (fst (add_gate c t ins out)) = gates c @ [g]"
proof -
  have k: "GATE_FUNCS (upper t) = Some NOT"
    using assms by (simp add: GATE_FUNCS_def)
  have len: "length (snd (add_nets c ins)) = length ins" for c
    by (induction ins arbitrary: c) (simp_all add: add_nets.simps case_prod_beta)
  show ?thesis
    unfolding add_gate_ok [OF k] by (simp add: Let_def len)
qed

theorem add_gate_not_any_arity_witness:
  "upper ''not'' = ''NOT''
   \<and> (\<exists>g. snd (add_gate Circuit_init ''not'' [] ''Y'') = Inr g
        \<and> gtype g = NOT \<and> length (inputs g) = length ([] :: string list)
        \<and> gates (fst (add_gate Circuit_init ''not'' [] ''Y'')) = gates Circuit_init @ [g])"
proof -
  have h: "upper ''not'' = ''NOT''"
    by (simp add: upper_def upper_char_def)
  show ?thesis
    using h add_gate_not_any_arity [OF h, of Circuit_init "[]" "''Y''"] by simp
qed

section \<open>Properties of the zero-delay constructor and its level sweep\<close>

lemmas build_defs = add_gate_def add_nets.simps add_net_def set_primary_inputs_def
  set_primary_outputs_def Circuit_init_def Gate_init_def GATE_FUNCS_def upper_def upper_char_def

lemma and_circuit_fields:
  "gates and_circuit = [\<lparr>gid = 0, gtype = AND, inputs = [0, 1], output_net = 2\<rparr>]"
  "primary_inputs and_circuit = [0, 1]"
  "primary_outputs and_circuit = [2]"
  "next_net_id and_circuit = 3"
  "fanout and_circuit 0 = [\<lparr>gid = 0, gtype = AND, inputs = [0, 1], output_net = 2\<rparr>]"
  "fanout and_circuit 1 = [\<lparr>gid = 0, gtype = AND, inputs = [0, 1], output_net = 2\<rparr>]"
  "fanout and_circuit (Suc 0) = [\<lparr>gid = 0, gtype = AND, inputs = [0, 1], output_net = 2\<rparr>]"
  "fanout and_circuit 2 = []"
  by (simp_all add: and_circuit_def build_defs)

lemma zd_init_and3:
  "ZeroDelaySimulator_init and_circuit V3 =
     Inr \<lparr>circuit = and_circuit, logic_model = V3, num_nets = 3,
          net_values = [LOGIC_ZERO, LOGIC_ZERO, LOGIC_ZERO],
          gate_sim_count = 0, output_log = [], intermediate_log = [],
          levels = [0 \<mapsto> 0], max_level = 0\<rparr>"
  by (simp add: ZeroDelaySimulator_init_def and_circuit_fields bump_indeg_def
      get_gate_by_output_def numeral_3_eq_3)

text \<open>
  C3.  Every constructor is to initialise the net values to \<open>U\<close> in 3-valued mode.
  The zero-delay constructor writes \<open>[LOGIC_ZERO]*n\<close> whatever the logic model is: on
  the AND circuit in 3-valued mode its nets start at 0, where the two-list constructor
  starts them at \<open>U\<close>.
\<close>

theorem zero_delay_init_ignores_logic_model:
  "(\<exists>s. ZeroDelaySimulator_init and_circuit V3 = Inr s
        \<and> net_values s = [LOGIC_ZERO, LOGIC_ZERO, LOGIC_ZERO])
   \<and> net_values (TwoListSimulator_init and_circuit V3) = [LOGIC_U, LOGIC_U, LOGIC_U]"
  by (simp add: zd_init_and3 TwoListSimulator_init_def and_circuit_fields numeral_3_eq_3)

lemma loop_circuit_fields:
  "gates loop_circuit =
     [\<lparr>gid = 0, gtype = NAND, inputs = [0, 1], output_net = 2\<rparr>,
      \<lparr>gid = 1, gtype = AND, inputs = [2], output_net = 1\<rparr>]"
  "primary_inputs loop_circuit = [0]"
  "primary_outputs loop_circuit = [1]"
  "next_net_id loop_circuit = 3"
  "fanout loop_circuit 0 = [\<lparr>gid = 0, gtype = NAND, inputs = [0, 1], output_net = 2\<rparr>]"
  "fanout loop_circuit 1 = [\<lparr>gid = 0, gtype = NAND, inputs = [0, 1], output_net = 2\<rparr>]"
  "fanout loop_circuit 2 = [\<lparr>gid = 1, gtype = AND, inputs = [2], output_net = 1\<rparr>]"
  "fanout loop_circuit (Suc 0) = [\<lparr>gid = 0, gtype = NAND, inputs = [0, 1], output_net = 2\<rparr>]"
  by (simp_all add: loop_circuit_def build_defs)

lemma zd_init_loop:
  "ZeroDelaySimulator_init loop_circuit V2 =
     Inr \<lparr>circuit = loop_circuit, logic_model = V2, num_nets = 3,
          net_values = [LOGIC_ZERO, LOGIC_ZERO, LOGIC_ZERO],
          gate_sim_count = 0, output_log = [], intermediate_log = [],
          levels = Map.empty, max_level = 0\<rparr>"
  by (simp add: ZeroDelaySimulator_init_def loop_circuit_fields bump_indeg_def
      get_gate_by_output_def numeral_3_eq_3)

lemma drain_level_oscillates:
  "drain_level c m lv lvl level_queues nv count iteration = Some y \<Longrightarrow>
   \<not> (c = loop_circuit \<and> m = V2 \<and> lv = Map.empty \<and> lvl = 0 \<and> iteration = False
      \<and> (level_queues, nv) \<in> oscillation)"
proof (induction rule: drain_level.raw_induct [rotated 1, consumes 1, case_names step])
  case (step drain_level' c m lv lvl level_queues nv count iteration ca)
  note IH = step(1) and body = step(2)
  show ?case
  proof
    assume a: "c = loop_circuit \<and> m = V2 \<and> lv = Map.empty \<and> lvl = 0 \<and> iteration = False
      \<and> (level_queues, nv) \<in> oscillation"
    then consider
        (s1) "level_queues = [[loop_nand]]" "nv = [LOGIC_ONE, LOGIC_ZERO, LOGIC_ZERO]"
      | (s2) "level_queues = [[loop_and]]" "nv = [LOGIC_ONE, LOGIC_ZERO, LOGIC_ONE]"
      | (s3) "level_queues = [[loop_nand]]" "nv = [LOGIC_ONE, LOGIC_ONE, LOGIC_ONE]"
      | (s4) "level_queues = [[loop_and]]" "nv = [LOGIC_ONE, LOGIC_ONE, LOGIC_ZERO]"
      by (auto simp: oscillation_def)
    then show False
    proof cases
      case s1
      with a body
      have "drain_level' loop_circuit V2 Map.empty 0 [[loop_and]]
              [LOGIC_ONE, LOGIC_ZERO, LOGIC_ONE] (count + 1) False = Some ca"
        by (simp add: loop_circuit_fields loop_nand_def loop_and_def simulate_def gate_func_def
            logic_nand_def logic_not_single_def level_of_def)
      from IH [OF this] show False by (simp add: oscillation_def)
    next
      case s2
      with a body
      have "drain_level' loop_circuit V2 Map.empty 0 [[loop_nand]]
              [LOGIC_ONE, LOGIC_ONE, LOGIC_ONE] (count + 1) False = Some ca"
        by (simp add: loop_circuit_fields loop_nand_def loop_and_def simulate_def gate_func_def
            logic_nand_def logic_not_single_def level_of_def)
      from IH [OF this] show False by (simp add: oscillation_def)
    next
      case s3
      with a body
      have "drain_level' loop_circuit V2 Map.empty 0 [[loop_and]]
              [LOGIC_ONE, LOGIC_ONE, LOGIC_ZERO] (count + 1) False = Some ca"
        by (simp add: loop_circuit_fields loop_nand_def loop_and_def simulate_def gate_func_def
            logic_nand_def logic_not_single_def level_of_def)
      from IH [OF this] show False by (simp add: oscillation_def)
    next
      case s4
      with a body
      have "drain_level' loop_circuit V2 Map.empty 0 [[loop_nand]]
              [LOGIC_ONE, LOGIC_ZERO, LOGIC_ZERO] (count + 1) False = Some ca"
        by (simp add: loop_circuit_fields loop_nand_def loop_and_def simulate_def gate_func_def
            logic_nand_def logic_not_single_def level_of_def)
      from IH [OF this] show False by (simp add: oscillation_def)
    qed
  qed
qed

lemma drain_level_loop_None:
  "drain_level loop_circuit V2 Map.empty 0 [[loop_nand]]
     [LOGIC_ONE, LOGIC_ZERO, LOGIC_ZERO] count False = None"
proof (cases "drain_level loop_circuit V2 Map.empty 0 [[loop_nand]]
     [LOGIC_ONE, LOGIC_ZERO, LOGIC_ZERO] count False")
  case None
  then show ?thesis .
next
  case (Some y)
  from drain_level_oscillates [OF this] show ?thesis by (simp add: oscillation_def)
qed

text \<open>
  C5.  \<open>ZeroDelaySimulator.simulate_vector\<close> is to return on every circuit, a two-gate
  feedback loop included.  The gates of a loop get no level and default to level 0, so
  a gate whose output changes puts its reader back into the bucket being drained: on
  \<open>loop_circuit\<close> with input A set to 1 the inner loop never empties its bucket and the
  call does not return.
\<close>

theorem zero_delay_feedback_never_returns:
  "\<exists>s. ZeroDelaySimulator_init loop_circuit V2 = Inr s
     \<and> ZeroDelay_simulate_vector s [0 \<mapsto> LOGIC_ONE] = None"
proof -
  let ?s = "\<lparr>circuit = loop_circuit, logic_model = V2, num_nets = 3,
          net_values = [LOGIC_ZERO, LOGIC_ZERO, LOGIC_ZERO],
          gate_sim_count = 0, output_log = [], intermediate_log = [],
          levels = Map.empty, max_level = 0\<rparr>"
  have "zero_delay_inputs loop_circuit [0] [0 \<mapsto> LOGIC_ONE] Map.empty
          [LOGIC_ZERO, LOGIC_ZERO, LOGIC_ZERO] [[]]
        = Inr ([LOGIC_ONE, LOGIC_ZERO, LOGIC_ZERO], [[loop_nand]])"
    by (simp add: loop_circuit_fields level_of_def loop_nand_def)
  moreover have "zero_delay_passes loop_circuit V2 Map.empty 0 [[loop_nand]]
          [LOGIC_ONE, LOGIC_ZERO, LOGIC_ZERO] 0 True 0 = None"
    by (subst zero_delay_passes.simps) (simp add: drain_level_loop_None)
  ultimately have "ZeroDelay_simulate_vector ?s [0 \<mapsto> LOGIC_ONE] = None"
    by (simp add: ZeroDelay_simulate_vector_def loop_circuit_fields)
  with zd_init_loop show ?thesis by blast
qed

section \<open>The zero-delay simulator reports no hazards\<close>

lemma zd_init_log:
  "ZeroDelaySimulator_init c m = Inr s \<Longrightarrow> intermediate_log s = []"
  by (auto simp: ZeroDelaySimulator_init_def split: sum.splits prod.splits)

lemma zd_step_log:
  "ZeroDelay_simulate_vector s iv = Some (Inr (s', hz)) \<Longrightarrow>
   hz = [] \<and> intermediate_log s' = intermediate_log s"
  by (auto simp: ZeroDelay_simulate_vector_def Let_def
      split: sum.splits prod.splits option.splits)

lemma zd_run_log:
  "run_vectors ZeroDelay_simulate_vector s0 vs = Some (Inr (s, hs)) \<Longrightarrow>
   intermediate_log s = intermediate_log s0 \<and> length hs = length vs \<and> set hs \<subseteq> {[]}"
proof (induction vs arbitrary: s0 hs)
  case Nil
  then show ?case by simp
next
  case (Cons v vs)
  from Cons.prems obtain s1 h1 hs1 where
    st: "ZeroDelay_simulate_vector s0 v = Some (Inr (s1, h1))"
    and rn: "run_vectors ZeroDelay_simulate_vector s1 vs = Some (Inr (s, hs1))"
    and hs: "hs = h1 # hs1"
    by (auto split: option.splits sum.splits prod.splits)
  from zd_step_log [OF st] Cons.IH [OF rn] hs show ?case by simp
qed

text \<open>
  C6.  For a zero-delay simulator as its constructor returns it and any sequence of
  input vectors, every call that returns gives the empty hazard list, and the
  intermediate log is empty after the run.
\<close>

theorem zero_delay_no_hazards_no_intermediate_log:
  assumes "ZeroDelaySimulator_init c m = Inr s0"
    and "run_vectors ZeroDelay_simulate_vector s0 vs = Some (Inr (s, hs))"
  shows "intermediate_log s = [] \<and> length hs = length vs \<and> (\<forall>h \<in> set hs. h = [])"
  using zd_init_log [OF assms(1)] zd_run_log [OF assms(2)] by auto

lemma zd_and_run:
  "(case ZeroDelaySimulator_init and_circuit V2 of
      Inr s0 \<Rightarrow>
        (case run_vectors ZeroDelay_simulate_vector s0
                [[0 \<mapsto> LOGIC_ONE, 1 \<mapsto> LOGIC_ONE], [0 \<mapsto> LOGIC_ZERO]] of
           Some (Inr (s, hs)) \<Rightarrow> net_values s = [LOGIC_ZERO, LOGIC_ONE, LOGIC_ZERO]
         | _ \<Rightarrow> False)
    | Inl e \<Rightarrow> False)"
  by code_simp

theorem zero_delay_no_hazards_no_intermediate_log_witness:
  "\<exists>s0 s hs. ZeroDelaySimulator_init and_circuit V2 = Inr s0
     \<and> run_vectors ZeroDelay_simulate_vector s0
          [[0 \<mapsto> LOGIC_ONE, 1 \<mapsto> LOGIC_ONE], [0 \<mapsto> LOGIC_ZERO]] = Some (Inr (s, hs))
     \<and> intermediate_log s = [] \<and> length hs = 2 \<and> (\<forall>h \<in> set hs. h = [])"
proof -
  from zd_and_run obtain s0 s hs where
    i: "ZeroDelaySimulator_init and_circuit V2 = Inr s0"
    and r: "run_vectors ZeroDelay_simulate_vector s0
          [[0 \<mapsto> LOGIC_ONE, 1 \<mapsto> LOGIC_ONE], [0 \<mapsto> LOGIC_ZERO]] = Some (Inr (s, hs))"
    by (auto split: sum.splits option.splits prod.splits)
  from zero_delay_no_hazards_no_intermediate_log [OF i r] i r show ?thesis by auto
qed

section \<open>Hazard detection\<close>









lemma returnsE:
  assumes "(case x of Some (Inr (s, h)) \<Rightarrow> P s h | _ \<Rightarrow> False)"
  obtains s h where "x = Some (Inr (s, h))" and "P s h"
  using assms by (auto split: option.splits sum.splits prod.splits)






section \<open>Two-valued mode never produces an unknown\<close>

lemma nth_two_valued: "set nv \<subseteq> two_valued \<Longrightarrow> i < length nv \<Longrightarrow> nv ! i \<in> two_valued"
  by (auto dest: nth_mem)

lemma update_two_valued:
  "set nv \<subseteq> two_valued \<Longrightarrow> v \<in> two_valued \<Longrightarrow> set (nv[i := v]) \<subseteq> two_valued"
  using set_update_subset_insert [of nv i v] by auto

lemma input_value_two_valued:
  "set nv \<subseteq> two_valued \<Longrightarrow> ran iv \<subseteq> two_valued \<Longrightarrow> net < length nv \<Longrightarrow>
   (case iv net of Some v \<Rightarrow> v | None \<Rightarrow> nv ! net) \<in> two_valued"
  by (auto simp: ran_def split: option.splits dest: nth_mem)

lemma logic_and_V2: "logic_and ins nv V2 = Inr v \<Longrightarrow> v \<in> two_valued"
  by (induction ins) (auto simp: two_valued_def Let_def split: if_splits)

lemma logic_or_V2: "logic_or ins nv V2 = Inr v \<Longrightarrow> v \<in> two_valued"
  by (induction ins) (auto simp: two_valued_def Let_def split: if_splits)

lemma logic_not_V2:
  "logic_not i nv V2 = Inr v \<Longrightarrow> set nv \<subseteq> two_valued \<Longrightarrow> v \<in> two_valued"
  using nth_two_valued [of nv i]
  by (auto simp: logic_not_def two_valued_def Let_def split: if_splits)

lemma logic_xor_loop_V2:
  "logic_xor_loop ins nv k = Inr v \<Longrightarrow> set nv \<subseteq> two_valued \<Longrightarrow> v \<in> two_valued"
proof (induction ins arbitrary: k)
  case Nil
  then show ?case by (auto simp: two_valued_def split: if_splits)
next
  case (Cons i ins)
  from Cons.prems have i: "i < length nv" by (auto split: if_splits)
  with Cons.prems(2) have "nv ! i \<in> two_valued" by (rule nth_two_valued)
  then have "nv ! i \<noteq> LOGIC_U" by (auto simp: two_valued_def)
  with Cons.prems(1) i
  have "logic_xor_loop ins nv (k + 1) = Inr v \<or> logic_xor_loop ins nv k = Inr v"
    by (auto simp: Let_def split: if_splits)
  with Cons.IH Cons.prems(2) show ?case by blast
qed

lemma logic_not_single_V2: "v \<in> two_valued \<Longrightarrow> logic_not_single v V2 \<in> two_valued"
  by (auto simp: logic_not_single_def two_valued_def)

lemma simulate_V2:
  assumes "simulate g nv V2 = Inr v" and "set nv \<subseteq> two_valued"
  shows "v \<in> two_valued"
proof (cases "gtype g")
  case AND
  with assms show ?thesis by (auto simp: simulate_def gate_func_def dest: logic_and_V2)
next
  case OR
  with assms show ?thesis by (auto simp: simulate_def gate_func_def dest: logic_or_V2)
next
  case NOT
  with assms show ?thesis
    by (auto simp: simulate_def gate_func_def split: list.splits dest: logic_not_V2)
next
  case NAND
  with assms show ?thesis
    by (auto simp: simulate_def gate_func_def logic_nand_def two_valued_def
        logic_not_single_def split: sum.splits if_splits dest!: logic_and_V2)
next
  case NOR
  with assms show ?thesis
    by (auto simp: simulate_def gate_func_def logic_nor_def two_valued_def
        logic_not_single_def split: sum.splits if_splits dest!: logic_or_V2)
next
  case XOR
  with assms show ?thesis
    by (auto simp: simulate_def gate_func_def logic_xor_def dest: logic_xor_loop_V2)
next
  case XNOR
  with assms show ?thesis
    by (auto simp: simulate_def gate_func_def logic_xnor_def logic_xor_def two_valued_def
        logic_not_single_def split: sum.splits if_splits dest!: logic_xor_loop_V2)
qed

lemma snapshot_loop_two_valued:
  "snapshot_loop d nids nv = Inr d' \<Longrightarrow> ran d \<subseteq> two_valued \<Longrightarrow> set nv \<subseteq> two_valued \<Longrightarrow>
   ran d' \<subseteq> two_valued"
proof (induction nids arbitrary: d)
  case Nil
  then show ?case by simp
next
  case (Cons nid nids)
  from Cons.prems have n: "nid < length nv"
    and r: "snapshot_loop (d(nid \<mapsto> nv ! nid)) nids nv = Inr d'"
    by (auto split: if_splits)
  from n Cons.prems(3) have "nv ! nid \<in> two_valued" by (auto dest: nth_mem)
  with Cons.prems(2) have "ran (d(nid \<mapsto> nv ! nid)) \<subseteq> two_valued"
    by (auto simp: ran_def split: if_splits)
  from Cons.IH [OF r this Cons.prems(3)] show ?case .
qed

lemma snapshot_two_valued:
  "snapshot nids nv = Inr d \<Longrightarrow> set nv \<subseteq> two_valued \<Longrightarrow> ran d \<subseteq> two_valued"
  unfolding snapshot_def by (erule snapshot_loop_two_valued) auto

lemma run_vectors_invariant:
  assumes step: "\<And>s iv s' hz. step s iv = Some (Inr (s', hz)) \<Longrightarrow> I s \<Longrightarrow>
      ran iv \<subseteq> two_valued \<Longrightarrow> I s'"
  shows "run_vectors step s vs = Some (Inr (s', hs)) \<Longrightarrow> I s \<Longrightarrow>
    (\<forall>iv \<in> set vs. ran iv \<subseteq> two_valued) \<Longrightarrow> I s'"
proof (induction vs arbitrary: s hs)
  case Nil
  then show ?case by simp
next
  case (Cons v vs)
  from Cons.prems(1) obtain s1 h1 hs1 where
    st: "step s v = Some (Inr (s1, h1))"
    and rn: "run_vectors step s1 vs = Some (Inr (s', hs1))"
    by (auto split: option.splits sum.splits prod.splits)
  from step [OF st Cons.prems(2)] Cons.prems(3) have "I s1" by simp
  from Cons.IH [OF rn this] Cons.prems(3) show ?case by simp
qed


lemma queue_inputs_two_valued:
  "queue_inputs nets iv m nv mark eq = Inr (mark', eq') \<Longrightarrow> set nv \<subseteq> two_valued \<Longrightarrow>
   ran iv \<subseteq> two_valued \<Longrightarrow> snd ` set eq \<subseteq> two_valued \<Longrightarrow> snd ` set eq' \<subseteq> two_valued"
proof (induction nets arbitrary: mark eq)
  case Nil
  then show ?case by simp
next
  case (Cons net nets)
  from Cons.prems(1) have n: "net < length nv" by (auto split: if_splits)
  let ?val = "case iv net of Some v \<Rightarrow> v | None \<Rightarrow> nv ! net"
  have v: "?val \<in> two_valued"
    using Cons.prems(2,3) n by (rule input_value_two_valued)
  from Cons.prems(1) n obtain mark1 eq1 where
    r: "queue_inputs nets iv m nv mark1 eq1 = Inr (mark', eq')"
    and e: "eq1 = eq \<or> eq1 = eq @ [(net, ?val)]"
    by (auto simp: Let_def split: if_splits)
  from e v Cons.prems(4) have "snd ` set eq1 \<subseteq> two_valued"
    by (auto simp: image_subset_iff)
  from Cons.IH [OF r Cons.prems(2,3) this] show ?case .
qed

lemma process_events_two_valued:
  "process_events c evs nv cc gq = Inr (nv', cc', gq') \<Longrightarrow> set nv \<subseteq> two_valued \<Longrightarrow>
   snd ` set evs \<subseteq> two_valued \<Longrightarrow> set nv' \<subseteq> two_valued"
proof (induction evs arbitrary: nv cc gq)
  case Nil
  then show ?case by simp
next
  case (Cons ev evs)
  obtain net v where ev: "ev = (net, v)" by (cases ev)
  from Cons.prems(3) ev have v: "v \<in> two_valued" and rest: "snd ` set evs \<subseteq> two_valued"
    by auto
  from Cons.prems(1) ev obtain nv1 cc1 gq1 where
    r: "process_events c evs nv1 cc1 gq1 = Inr (nv', cc', gq')"
    and e: "nv1 = nv \<or> nv1 = nv[net := v]"
    by (auto split: if_splits)
  from e v Cons.prems(2) have "set nv1 \<subseteq> two_valued"
    by (auto dest: update_two_valued)
  from Cons.IH [OF r this rest] show ?case .
qed

lemma simulate_gates_two_valued:
  "simulate_gates gs nv V2 count eq = Inr (count', eq') \<Longrightarrow> set nv \<subseteq> two_valued \<Longrightarrow>
   snd ` set eq \<subseteq> two_valued \<Longrightarrow> snd ` set eq' \<subseteq> two_valued"
proof (induction gs arbitrary: count eq)
  case Nil
  then show ?case by simp
next
  case (Cons g gs)
  from Cons.prems(1) obtain v eq1 where
    s: "simulate g nv V2 = Inr v"
    and r: "simulate_gates gs nv V2 (count + 1) eq1 = Inr (count', eq')"
    and e: "eq1 = eq \<or> eq1 = eq @ [(output_net g, v)]"
    by (auto split: sum.splits if_splits)
  from simulate_V2 [OF s Cons.prems(2)] e Cons.prems(3)
  have "snd ` set eq1 \<subseteq> two_valued" by (auto simp: image_subset_iff)
  from Cons.IH [OF r Cons.prems(2) this] show ?case .
qed

lemma two_list_loop_two_valued:
  "two_list_loop c m eq nv cc count ilog t = Some r \<Longrightarrow>
   m = V2 \<longrightarrow> set nv \<subseteq> two_valued \<longrightarrow> snd ` set eq \<subseteq> two_valued \<longrightarrow>
   (\<forall>nv' cc' count' ilog'. r = Inr (nv', cc', count', ilog') \<longrightarrow> set nv' \<subseteq> two_valued)"
proof (induction rule: two_list_loop.raw_induct [rotated 1, consumes 1, case_names step])
  case (step loop c m eq nv cc count ilog t r)
  show ?case
  proof (intro impI allI)
    fix nv' cc' count' ilog'
    assume m: "m = V2" and nv: "set nv \<subseteq> two_valued" and eq: "snd ` set eq \<subseteq> two_valued"
      and r: "r = Inr (nv', cc', count', ilog')"
    show "set nv' \<subseteq> two_valued"
    proof (cases "eq = []")
      case True
      with step(2) r nv show ?thesis by simp
    next
      case False
      with step(2) r obtain nv1 cc1 gq where
        pe: "process_events c eq nv cc [] = Inr (nv1, cc1, gq)"
        by (auto split: sum.splits)
      from process_events_two_valued [OF pe nv eq] have nv1: "set nv1 \<subseteq> two_valued" .
      show ?thesis
      proof (cases "gq = []")
        case True
        with step(2) False pe have "loop c m [] nv1 cc1 count ilog t = Some r" by simp
        from step(1) [OF this] m nv1 r show ?thesis by simp
      next
        case gq: False
        with step(2) False pe r m obtain snap count1 eq1 where
          sg: "simulate_gates gq nv1 V2 count [] = Inr (count1, eq1)"
          and l: "loop c m eq1 nv1 cc1 count1 (ilog @ [(t, snap)]) (t + 1) = Some r"
          by (auto split: sum.splits)
        from simulate_gates_two_valued [OF sg nv1] have "snd ` set eq1 \<subseteq> two_valued" by simp
        with step(1) [OF l] m nv1 r show ?thesis by simp
      qed
    qed
  qed
qed

lemma TwoList_step_two_valued:
  assumes "TwoList_simulate_vector s iv = Some (Inr (s', hz))"
    and "logic_model s = V2" and "two_valued_state s" and "ran iv \<subseteq> two_valued"
  shows "logic_model s' = V2 \<and> two_valued_state s'"
proof -
  from assms(1) obtain mark eq nv cc count ilog snap where
    q: "queue_inputs (primary_inputs (circuit s)) iv (logic_model s) (net_values s)
          (net_mark s) [] = Inr (mark, eq)"
    and l: "two_list_loop (circuit s) (logic_model s) eq (net_values s)
          (replicate (num_nets s) 0) (gate_sim_count s) (intermediate_log s) 0
          = Some (Inr (nv, cc, count, ilog))"
    and sn: "snapshot (primary_outputs (circuit s)) nv = Inr snap"
    and s': "s' = s\<lparr>net_values := nv, net_mark := mark, gate_sim_count := count,
          intermediate_log := ilog, output_log := output_log s @ [snap]\<rparr>"
    by (auto simp: TwoList_simulate_vector_def Let_def
        split: sum.splits prod.splits option.splits)
  from assms(3) have nv0: "set (net_values s) \<subseteq> two_valued"
    and ol: "\<Union> (ran ` set (output_log s)) \<subseteq> two_valued"
    by (auto simp: two_valued_state_def)
  from queue_inputs_two_valued [OF q nv0 assms(4)] have "snd ` set eq \<subseteq> two_valued" by simp
  with two_list_loop_two_valued [OF l] assms(2) nv0 have nv: "set nv \<subseteq> two_valued" by simp
  from snapshot_two_valued [OF sn nv] have "ran snap \<subseteq> two_valued" .
  with nv ol s' assms(2) show ?thesis by (auto simp: two_valued_state_def)
qed


lemma simulate_fanout_two_valued:
  "simulate_fanout gs nv V2 count q = Inr (count', q') \<Longrightarrow> set nv \<subseteq> two_valued \<Longrightarrow>
   (\<forall>net v. Item (net, v) \<in> set q \<longrightarrow> v \<in> two_valued) \<Longrightarrow>
   (\<forall>net v. Item (net, v) \<in> set q' \<longrightarrow> v \<in> two_valued)"
proof (induction gs arbitrary: count q)
  case Nil
  then show ?case by simp
next
  case (Cons g gs)
  from Cons.prems(1) obtain v q1 where
    s: "simulate g nv V2 = Inr v"
    and r: "simulate_fanout gs nv V2 (count + 1) q1 = Inr (count', q')"
    and e: "q1 = q \<or> q1 = q @ [Item (output_net g, v)]"
    by (auto simp: Let_def split: sum.splits if_splits)
  from simulate_V2 [OF s Cons.prems(2)] e Cons.prems(3)
  have "\<forall>net v. Item (net, v) \<in> set q1 \<longrightarrow> v \<in> two_valued" by auto
  from Cons.IH [OF r Cons.prems(2) this] show ?case .
qed

lemma single_list_event_loop_two_valued:
  "single_list_event_loop c m q nv cc count ilog t = Some r \<Longrightarrow>
   m = V2 \<longrightarrow> set nv \<subseteq> two_valued \<longrightarrow>
   (\<forall>net v. Item (net, v) \<in> set q \<longrightarrow> v \<in> two_valued) \<longrightarrow>
   (\<forall>nv' cc' count' ilog'. r = Inr (nv', cc', count', ilog') \<longrightarrow> set nv' \<subseteq> two_valued)"
proof (induction rule: single_list_event_loop.raw_induct [rotated 1, consumes 1, case_names step])
  case (step loop c m q nv cc count ilog t r)
  show ?case
  proof (intro impI allI)
    fix nv' cc' count' ilog'
    assume m: "m = V2" and nv: "set nv \<subseteq> two_valued"
      and q: "\<forall>net v. Item (net, v) \<in> set q \<longrightarrow> v \<in> two_valued"
      and r: "r = Inr (nv', cc', count', ilog')"
    show "set nv' \<subseteq> two_valued"
    proof (cases q)
      case Nil
      with step(2) r nv show ?thesis by simp
    next
      case (Cons ev rest)
      show ?thesis
      proof (cases ev)
        case MARKER
        with step(2) Cons r obtain snap where
          l: "loop c m (if rest \<noteq> [] then rest @ [MARKER] else rest) nv cc count
                (ilog @ [(t, snap)]) (t + 1) = Some r"
          by (auto split: sum.splits)
        from q Cons have "\<forall>net v. Item (net, v) \<in> set (if rest \<noteq> [] then rest @ [MARKER] else rest)
            \<longrightarrow> v \<in> two_valued"
          by auto
        with step(1) [OF l] m nv r show ?thesis by blast
      next
        case (Item p)
        obtain net v where p: "p = (net, v)" by (cases p)
        from q Cons Item p have v: "v \<in> two_valued"
          and rest: "\<forall>net v. Item (net, v) \<in> set rest \<longrightarrow> v \<in> two_valued"
          by auto
        from step(2) Cons Item p r m obtain nv1 cc1 count1 q1 where
          sf: "simulate_fanout (fanout c net) nv1 V2 count rest = Inr (count1, q1)"
          and l: "loop c m q1 nv1 cc1 count1 ilog t = Some r"
          and e: "nv1 = nv \<or> nv1 = nv[net := v]"
          by (auto split: sum.splits if_splits)
        from e v nv have nv1: "set nv1 \<subseteq> two_valued" by (auto dest: update_two_valued)
        from simulate_fanout_two_valued [OF sf nv1 rest] step(1) [OF l] m nv1 r
        show ?thesis by blast
      qed
    qed
  qed
qed

lemma SingleListEvent_step_two_valued:
  assumes "SingleListEvent_simulate_vector s iv = Some (Inr (s', hz))"
    and "logic_model s = V2" and "two_valued_state s" and "ran iv \<subseteq> two_valued"
  shows "logic_model s' = V2 \<and> two_valued_state s'"
proof -
  from assms(1) obtain mark eq nv cc count ilog snap where
    q: "queue_inputs (primary_inputs (circuit s)) iv (logic_model s) (net_values s)
          (net_mark s) [] = Inr (mark, eq)"
    and l: "single_list_event_loop (circuit s) (logic_model s) (map Item eq @ [MARKER])
          (net_values s) (replicate (num_nets s) 0) (gate_sim_count s) (intermediate_log s) 0
          = Some (Inr (nv, cc, count, ilog))"
    and sn: "snapshot (primary_outputs (circuit s)) nv = Inr snap"
    and s': "s' = s\<lparr>net_values := nv, net_mark := mark, gate_sim_count := count,
          intermediate_log := ilog, output_log := output_log s @ [snap]\<rparr>"
    by (auto simp: SingleListEvent_simulate_vector_def Let_def
        split: sum.splits prod.splits option.splits)
  from assms(3) have nv0: "set (net_values s) \<subseteq> two_valued"
    and ol: "\<Union> (ran ` set (output_log s)) \<subseteq> two_valued"
    by (auto simp: two_valued_state_def)
  from queue_inputs_two_valued [OF q nv0 assms(4)] have "snd ` set eq \<subseteq> two_valued" by simp
  then have "\<forall>net v. Item (net, v) \<in> set (map Item eq @ [MARKER]) \<longrightarrow> v \<in> two_valued"
    by (auto simp: image_subset_iff)
  with single_list_event_loop_two_valued [OF l] assms(2) nv0
  have nv: "set nv \<subseteq> two_valued" by blast
  from snapshot_two_valued [OF sn nv] have "ran snap \<subseteq> two_valued" .
  with nv ol s' assms(2) show ?thesis by (auto simp: two_valued_state_def)
qed

lemma commit_inputs_two_valued:
  "commit_inputs nets iv nv changed = Inr (nv', changed') \<Longrightarrow> set nv \<subseteq> two_valued \<Longrightarrow>
   ran iv \<subseteq> two_valued \<Longrightarrow> set nv' \<subseteq> two_valued"
proof (induction nets arbitrary: nv changed)
  case Nil
  then show ?case by simp
next
  case (Cons net nets)
  from Cons.prems(1) have n: "net < length nv" by (auto split: if_splits)
  let ?val = "case iv net of Some v \<Rightarrow> v | None \<Rightarrow> nv ! net"
  have v: "?val \<in> two_valued"
    using Cons.prems(2,3) n by (rule input_value_two_valued)
  from Cons.prems(1) n obtain nv1 changed1 where
    r: "commit_inputs nets iv nv1 changed1 = Inr (nv', changed')"
    and e: "nv1 = nv \<or> nv1 = nv[net := ?val]"
    by (auto simp: Let_def split: if_splits)
  from e v Cons.prems(2) have "set nv1 \<subseteq> two_valued" by (auto dest: update_two_valued)
  from Cons.IH [OF r this Cons.prems(3)] show ?case .
qed

lemma commit_temp_two_valued:
  "commit_temp items nv cc = Inr (nv', cc') \<Longrightarrow> set nv \<subseteq> two_valued \<Longrightarrow>
   snd ` set items \<subseteq> two_valued \<Longrightarrow> set nv' \<subseteq> two_valued"
proof (induction items arbitrary: nv cc)
  case Nil
  then show ?case by simp
next
  case (Cons it items)
  obtain net v where it: "it = (net, v)" by (cases it)
  from Cons.prems(3) it have v: "v \<in> two_valued" and rest: "snd ` set items \<subseteq> two_valued"
    by auto
  from Cons.prems(1) it obtain nv1 cc1 where
    r: "commit_temp items nv1 cc1 = Inr (nv', cc')"
    and e: "nv1 = nv \<or> nv1 = nv[net := v]"
    by (auto split: if_splits)
  from e v Cons.prems(2) have "set nv1 \<subseteq> two_valued" by (auto dest: update_two_valued)
  from Cons.IH [OF r this rest] show ?case .
qed

lemma single_list_gate_loop_two_valued:
  "single_list_gate_loop c m q nv cc count ilog t temp flagged = Some r \<Longrightarrow>
   m = V2 \<longrightarrow> set nv \<subseteq> two_valued \<longrightarrow> snd ` set temp \<subseteq> two_valued \<longrightarrow>
   (\<forall>nv' cc' count' ilog'. r = Inr (nv', cc', count', ilog') \<longrightarrow> set nv' \<subseteq> two_valued)"
proof (induction rule: single_list_gate_loop.raw_induct [rotated 1, consumes 1, case_names step])
  case (step loop c m q nv cc count ilog t temp flagged r)
  show ?case
  proof (intro impI allI)
    fix nv' cc' count' ilog'
    assume m: "m = V2" and nv: "set nv \<subseteq> two_valued"
      and temp: "snd ` set temp \<subseteq> two_valued"
      and r: "r = Inr (nv', cc', count', ilog')"
    show "set nv' \<subseteq> two_valued"
    proof (cases q)
      case Nil
      with step(2) r nv show ?thesis by simp
    next
      case (Cons el rest)
      show ?thesis
      proof (cases el)
        case MARKER
        with step(2) Cons r obtain nv1 cc1 q1 ilog1 flagged1 where
          ct: "commit_temp temp nv cc = Inr (nv1, cc1)"
          and l: "loop c m q1 nv1 cc1 count ilog1 (t + 1) [] flagged1 = Some r"
          by (auto split: sum.splits if_splits)
        from commit_temp_two_valued [OF ct nv temp] step(1) [OF l] m r
        show ?thesis by simp
      next
        case (Item g)
        with step(2) Cons r show ?thesis by simp
      qed
    qed
  qed
qed

lemma SingleListGate_step_two_valued:
  assumes "SingleListGate_simulate_vector s iv = Some (Inr (s', hz))"
    and "logic_model s = V2" and "two_valued_state s" and "ran iv \<subseteq> two_valued"
  shows "logic_model s' = V2 \<and> two_valued_state s'"
proof -
  from assms(1) obtain nv0 changed nv cc count ilog snap where
    q: "commit_inputs (primary_inputs (circuit s)) iv (net_values s) [] = Inr (nv0, changed)"
    and l: "single_list_gate_loop (circuit s) (logic_model s)
          (map Item (concat (map (fanout (circuit s)) changed)) @ [MARKER])
          nv0 (replicate (num_nets s) 0) (gate_sim_count s) (intermediate_log s) 0 [] {}
          = Some (Inr (nv, cc, count, ilog))"
    and sn: "snapshot (primary_outputs (circuit s)) nv = Inr snap"
    and s': "s' = s\<lparr>net_values := nv, gate_sim_count := count,
          intermediate_log := ilog, output_log := output_log s @ [snap]\<rparr>"
    by (auto simp: SingleListGate_simulate_vector_def Let_def
        split: sum.splits prod.splits option.splits)
  from assms(3) have nvs: "set (net_values s) \<subseteq> two_valued"
    and ol: "\<Union> (ran ` set (output_log s)) \<subseteq> two_valued"
    by (auto simp: two_valued_state_def)
  from commit_inputs_two_valued [OF q nvs assms(4)] have "set nv0 \<subseteq> two_valued" .
  with single_list_gate_loop_two_valued [OF l] assms(2)
  have nv: "set nv \<subseteq> two_valued" by simp
  from snapshot_two_valued [OF sn nv] have "ran snap \<subseteq> two_valued" .
  with nv ol s' assms(2) show ?thesis by (auto simp: two_valued_state_def)
qed


lemma zero_delay_inputs_two_valued:
  "zero_delay_inputs c nets iv lv nv lq = Inr (nv', lq') \<Longrightarrow> set nv \<subseteq> two_valued \<Longrightarrow>
   ran iv \<subseteq> two_valued \<Longrightarrow> set nv' \<subseteq> two_valued"
proof (induction nets arbitrary: nv lq)
  case Nil
  then show ?case by simp
next
  case (Cons net nets)
  from Cons.prems(1) have n: "net < length nv" by (auto split: if_splits)
  let ?val = "case iv net of Some v \<Rightarrow> v | None \<Rightarrow> nv ! net"
  have v: "?val \<in> two_valued"
    using Cons.prems(2,3) n by (rule input_value_two_valued)
  from Cons.prems(1) n obtain nv1 lq1 where
    r: "zero_delay_inputs c nets iv lv nv1 lq1 = Inr (nv', lq')"
    and e: "nv1 = nv \<or> nv1 = nv[net := ?val]"
    by (auto simp: Let_def split: if_splits sum.splits)
  from e v Cons.prems(2) have "set nv1 \<subseteq> two_valued" by (auto dest: update_two_valued)
  from Cons.IH [OF r this Cons.prems(3)] show ?case .
qed

lemma drain_level_two_valued:
  "drain_level c m lv lvl lq nv count it = Some r \<Longrightarrow>
   m = V2 \<longrightarrow> set nv \<subseteq> two_valued \<longrightarrow>
   (\<forall>lq' nv' count' it'. r = Inr (lq', nv', count', it') \<longrightarrow> set nv' \<subseteq> two_valued)"
proof (induction rule: drain_level.raw_induct [rotated 1, consumes 1, case_names step])
  case (step loop c m lv lvl lq nv count it r)
  show ?case
  proof (intro impI allI)
    fix lq' nv' count' it'
    assume m: "m = V2" and nv: "set nv \<subseteq> two_valued"
      and r: "r = Inr (lq', nv', count', it')"
    from step(2) r have lvl: "lvl < length lq" by (auto split: if_splits)
    show "set nv' \<subseteq> two_valued"
    proof (cases "lq ! lvl")
      case Nil
      with step(2) r nv lvl show ?thesis by simp
    next
      case (Cons g rest)
      with step(2) r m lvl obtain v lq1 nv1 it1 where
        s: "simulate g nv V2 = Inr v"
        and l: "loop c m lv lvl lq1 nv1 (count + 1) it1 = Some r"
        and e: "nv1 = nv \<or> nv1 = nv[output_net g := v]"
        by (auto split: sum.splits if_splits prod.splits)
      from simulate_V2 [OF s nv] e nv have "set nv1 \<subseteq> two_valued"
        by (auto dest: update_two_valued)
      with step(1) [OF l] m r show ?thesis by simp
    qed
  qed
qed

lemma sweep_levels_two_valued:
  "sweep_levels c V2 lv lvls lq nv count it = Some (Inr (lq', nv', count', it')) \<Longrightarrow>
   set nv \<subseteq> two_valued \<Longrightarrow> set nv' \<subseteq> two_valued"
proof (induction lvls arbitrary: lq nv count it)
  case Nil
  then show ?case by simp
next
  case (Cons lvl lvls)
  from Cons.prems(1) obtain lq1 nv1 count1 it1 where
    d: "drain_level c V2 lv lvl lq nv count it = Some (Inr (lq1, nv1, count1, it1))"
    and r: "sweep_levels c V2 lv lvls lq1 nv1 count1 it1 = Some (Inr (lq', nv', count', it'))"
    by (auto split: option.splits sum.splits prod.splits)
  from drain_level_two_valued [OF d] Cons.prems(2) have "set nv1 \<subseteq> two_valued" by simp
  from Cons.IH [OF r this] show ?case .
qed

lemma zero_delay_passes_two_valued:
  "zero_delay_passes c m lv max_lv lq nv count it pass_num = Some (Inr (nv', count')) \<Longrightarrow>
   m = V2 \<Longrightarrow> set nv \<subseteq> two_valued \<Longrightarrow> set nv' \<subseteq> two_valued"
proof (induction c m lv max_lv lq nv count it pass_num rule: zero_delay_passes.induct)
  case (1 c m lv max_lv lq nv count it pass_num)
  show ?case
  proof (cases "it \<and> pass_num < 2")
    case False
    with "1.prems" show ?thesis by (subst (asm) zero_delay_passes.simps) auto
  next
    case True
    from "1.prems"(1) have "(case sweep_levels c m lv [0..<max_lv + 1] lq nv count False of
           None \<Rightarrow> None
         | Some (Inl e) \<Rightarrow> Some (Inl e)
         | Some (Inr (lq1, nv1, count1, it1)) \<Rightarrow>
             zero_delay_passes c m lv max_lv lq1 nv1 count1 it1 (pass_num + 1))
        = Some (Inr (nv', count'))"
      by (subst (asm) zero_delay_passes.simps) (use True in simp)
    then obtain lq1 nv1 count1 it1 where
      sw: "sweep_levels c m lv [0..<max_lv + 1] lq nv count False
             = Some (Inr (lq1, nv1, count1, it1))"
      and r: "zero_delay_passes c m lv max_lv lq1 nv1 count1 it1 (pass_num + 1)
             = Some (Inr (nv', count'))"
      by (auto split: option.splits sum.splits prod.splits)
    from sw "1.prems"(2,3) have "set nv1 \<subseteq> two_valued"
      by (auto dest: sweep_levels_two_valued)
    from "1.IH" [OF True sw refl refl refl refl r "1.prems"(2) this] show ?thesis .
  qed
qed

lemma ZeroDelay_step_two_valued:
  assumes "ZeroDelay_simulate_vector s iv = Some (Inr (s', hz))"
    and "logic_model s = V2" and "two_valued_state s" and "ran iv \<subseteq> two_valued"
  shows "logic_model s' = V2 \<and> two_valued_state s'"
proof -
  from assms(1) obtain nv0 lq nv count snap where
    q: "zero_delay_inputs (circuit s) (primary_inputs (circuit s)) iv (levels s)
          (net_values s) (replicate (max_level s + 1) []) = Inr (nv0, lq)"
    and l: "zero_delay_passes (circuit s) (logic_model s) (levels s) (max_level s) lq
          nv0 (gate_sim_count s) True 0 = Some (Inr (nv, count))"
    and sn: "snapshot (primary_outputs (circuit s)) nv = Inr snap"
    and s': "s' = s\<lparr>net_values := nv, gate_sim_count := count,
          output_log := output_log s @ [snap]\<rparr>"
    by (auto simp: ZeroDelay_simulate_vector_def Let_def
        split: sum.splits prod.splits option.splits)
  from assms(3) have nvs: "set (net_values s) \<subseteq> two_valued"
    and ol: "\<Union> (ran ` set (output_log s)) \<subseteq> two_valued"
    by (auto simp: two_valued_state_def)
  from zero_delay_inputs_two_valued [OF q nvs assms(4)] have "set nv0 \<subseteq> two_valued" .
  from zero_delay_passes_two_valued [OF l assms(2) this] have nv: "set nv \<subseteq> two_valued" .
  from snapshot_two_valued [OF sn nv] have "ran snap \<subseteq> two_valued" .
  with nv ol s' assms(2) show ?thesis by (auto simp: two_valued_state_def)
qed

lemma ZeroDelay_init_two_valued:
  "ZeroDelaySimulator_init c m = Inr s \<Longrightarrow> logic_model s = m \<and> two_valued_state s"
  by (auto simp: ZeroDelaySimulator_init_def two_valued_state_def two_valued_def
      split: sum.splits prod.splits)

lemma push_inputs_two_valued:
  "push_inputs nets iv nv st = Inr st' \<Longrightarrow> set nv \<subseteq> two_valued \<Longrightarrow>
   ran iv \<subseteq> two_valued \<Longrightarrow> snd ` set st \<subseteq> two_valued \<Longrightarrow> snd ` set st' \<subseteq> two_valued"
proof (induction nets arbitrary: st)
  case Nil
  then show ?case by simp
next
  case (Cons net nets)
  from Cons.prems(1) have n: "net < length nv" by (auto split: if_splits)
  let ?val = "case iv net of Some v \<Rightarrow> v | None \<Rightarrow> nv ! net"
  have v: "?val \<in> two_valued"
    using Cons.prems(2,3) n by (rule input_value_two_valued)
  from Cons.prems(1) n obtain st1 where
    r: "push_inputs nets iv nv st1 = Inr st'"
    and e: "st1 = st \<or> st1 = (net, ?val) # st"
    by (auto simp: Let_def split: if_splits)
  from e v Cons.prems(4) have "snd ` set st1 \<subseteq> two_valued"
    by (auto simp: image_subset_iff)
  from Cons.IH [OF r Cons.prems(2,3) this] show ?case .
qed

lemma threaded_loop_two_valued:
  "threaded_loop c m es gs nv cc count = Some r \<Longrightarrow>
   m = V2 \<longrightarrow> set nv \<subseteq> two_valued \<longrightarrow> snd ` set es \<subseteq> two_valued \<longrightarrow>
   (\<forall>nv' cc' count'. r = Inr (nv', cc', count') \<longrightarrow> set nv' \<subseteq> two_valued)"
proof (induction rule: threaded_loop.raw_induct [rotated 1, consumes 1, case_names step])
  case (step loop c m es gs nv cc count r)
  show ?case
  proof (intro impI allI)
    fix nv' cc' count'
    assume m: "m = V2" and nv: "set nv \<subseteq> two_valued"
      and es: "snd ` set es \<subseteq> two_valued"
      and r: "r = Inr (nv', cc', count')"
    show "set nv' \<subseteq> two_valued"
    proof (cases es)
      case (Cons ev es1)
      obtain net v where ev: "ev = (net, v)" by (cases ev)
      from es Cons ev have v: "v \<in> two_valued" and es1: "snd ` set es1 \<subseteq> two_valued"
        by auto
      from step(2) Cons ev r obtain gs1 nv1 cc1 where
        l: "loop c m es1 gs1 nv1 cc1 count = Some r"
        and e: "nv1 = nv \<or> nv1 = nv[net := v]"
        by (auto split: if_splits)
      from e v nv have "set nv1 \<subseteq> two_valued" by (auto dest: update_two_valued)
      with step(1) [OF l] m es1 r show ?thesis by simp
    next
      case Nil
      show ?thesis
      proof (cases gs)
        case gs: Nil
        with step(2) Nil r nv show ?thesis by simp
      next
        case (Cons g gs1)
        with step(2) Nil r m obtain v es1 where
          s: "simulate g nv V2 = Inr v"
          and l: "loop c m es1 gs1 nv cc (count + 1) = Some r"
          and e: "es1 = [] \<or> es1 = [(output_net g, v)]"
          by (auto split: sum.splits if_splits)
        from simulate_V2 [OF s nv] e have "snd ` set es1 \<subseteq> two_valued" by auto
        with step(1) [OF l] m nv r show ?thesis by simp
      qed
    qed
  qed
qed

lemma Threaded_step_two_valued:
  assumes "Threaded_simulate_vector s iv = Some (Inr (s', hz))"
    and "logic_model s = V2 \<and> two_valued_state s \<and> event_stack s = []"
    and "ran iv \<subseteq> two_valued"
  shows "logic_model s' = V2 \<and> two_valued_state s' \<and> event_stack s' = []"
proof -
  from assms(1) obtain es nv cc count snap where
    q: "push_inputs (primary_inputs (circuit s)) iv (net_values s) (event_stack s) = Inr es"
    and l: "threaded_loop (circuit s) (logic_model s) es (gate_stack s) (net_values s)
          (replicate (num_nets s) 0) (gate_sim_count s) = Some (Inr (nv, cc, count))"
    and sn: "snapshot (primary_outputs (circuit s)) nv = Inr snap"
    and s': "s' = s\<lparr>net_values := nv, gate_sim_count := count,
          output_log := output_log s @ [snap], event_stack := [], gate_stack := []\<rparr>"
    by (auto simp: Threaded_simulate_vector_def Let_def
        split: sum.splits prod.splits option.splits)
  from assms(2) have nvs: "set (net_values s) \<subseteq> two_valued"
    and ol: "\<Union> (ran ` set (output_log s)) \<subseteq> two_valued"
    and m: "logic_model s = V2" and st: "event_stack s = []"
    by (auto simp: two_valued_state_def)
  from push_inputs_two_valued [OF q nvs assms(3)] st have "snd ` set es \<subseteq> two_valued" by simp
  with threaded_loop_two_valued [OF l] m nvs have nv: "set nv \<subseteq> two_valued" by simp
  from snapshot_two_valued [OF sn nv] have "ran snap \<subseteq> two_valued" .
  with nv ol s' m show ?thesis by (auto simp: two_valued_state_def)
qed


lemma init_two_valued:
  "two_valued_state (TwoListSimulator_init c V2)"
  "two_valued_state (SingleListEventSimulator_init c V2)"
  "two_valued_state (SingleListGateSimulator_init c V2)"
  "two_valued_state (ThreadedSimulator_init c V2)"
  by (auto simp: two_valued_state_def two_valued_def TwoListSimulator_init_def
      SingleListEventSimulator_init_def SingleListGateSimulator_init_def
      ThreadedSimulator_init_def)

lemma init_logic_model:
  "logic_model (TwoListSimulator_init c m) = m"
  "logic_model (SingleListEventSimulator_init c m) = m"
  "logic_model (SingleListGateSimulator_init c m) = m"
  "logic_model (ThreadedSimulator_init c m) = m"
  "event_stack (ThreadedSimulator_init c m) = []"
  by (simp_all add: TwoListSimulator_init_def SingleListEventSimulator_init_def
      SingleListGateSimulator_init_def ThreadedSimulator_init_def)

text \<open>
  C10.  For each of the five simulators constructed in 2-valued mode, and a sequence
  of input vectors that supply only the values 0 and 1: after a run that returns, the
  net-values array and every entry of the output log hold only 0 and 1.  A run is any
  number of calls, so this holds after each call.
\<close>

theorem two_valued_runs_stay_two_valued:
  assumes "\<forall>iv \<in> set vs. ran iv \<subseteq> two_valued"
  shows "(run_vectors TwoList_simulate_vector (TwoListSimulator_init c V2) vs
            = Some (Inr (s1, h1)) \<longrightarrow> two_valued_state s1)
    \<and> (run_vectors SingleListEvent_simulate_vector (SingleListEventSimulator_init c V2) vs
            = Some (Inr (s2, h2)) \<longrightarrow> two_valued_state s2)
    \<and> (run_vectors SingleListGate_simulate_vector (SingleListGateSimulator_init c V2) vs
            = Some (Inr (s3, h3)) \<longrightarrow> two_valued_state s3)
    \<and> (ZeroDelaySimulator_init c V2 = Inr s0 \<longrightarrow>
         run_vectors ZeroDelay_simulate_vector s0 vs = Some (Inr (s4, h4))
         \<longrightarrow> two_valued_state s4)
    \<and> (run_vectors Threaded_simulate_vector (ThreadedSimulator_init c V2) vs
            = Some (Inr (s5, h5)) \<longrightarrow> two_valued_state s5)"
proof (intro conjI impI)
  assume r: "run_vectors TwoList_simulate_vector (TwoListSimulator_init c V2) vs
            = Some (Inr (s1, h1))"
  have "logic_model s1 = V2 \<and> two_valued_state s1"
    by (rule run_vectors_invariant [where I = "\<lambda>s. logic_model s = V2 \<and> two_valued_state s",
          OF _ r _ assms])
       (auto dest: TwoList_step_two_valued simp: init_two_valued init_logic_model)
  then show "two_valued_state s1" ..
next
  assume r: "run_vectors SingleListEvent_simulate_vector (SingleListEventSimulator_init c V2) vs
            = Some (Inr (s2, h2))"
  have "logic_model s2 = V2 \<and> two_valued_state s2"
    by (rule run_vectors_invariant [where I = "\<lambda>s. logic_model s = V2 \<and> two_valued_state s",
          OF _ r _ assms])
       (auto dest: SingleListEvent_step_two_valued simp: init_two_valued init_logic_model)
  then show "two_valued_state s2" ..
next
  assume r: "run_vectors SingleListGate_simulate_vector (SingleListGateSimulator_init c V2) vs
            = Some (Inr (s3, h3))"
  have "logic_model s3 = V2 \<and> two_valued_state s3"
    by (rule run_vectors_invariant [where I = "\<lambda>s. logic_model s = V2 \<and> two_valued_state s",
          OF _ r _ assms])
       (auto dest: SingleListGate_step_two_valued simp: init_two_valued init_logic_model)
  then show "two_valued_state s3" ..
next
  assume i: "ZeroDelaySimulator_init c V2 = Inr s0"
    and r: "run_vectors ZeroDelay_simulate_vector s0 vs = Some (Inr (s4, h4))"
  have "logic_model s4 = V2 \<and> two_valued_state s4"
    by (rule run_vectors_invariant [where I = "\<lambda>s. logic_model s = V2 \<and> two_valued_state s",
          OF _ r _ assms])
       (use ZeroDelay_init_two_valued [OF i] in \<open>auto dest: ZeroDelay_step_two_valued\<close>)
  then show "two_valued_state s4" ..
next
  assume r: "run_vectors Threaded_simulate_vector (ThreadedSimulator_init c V2) vs
            = Some (Inr (s5, h5))"
  have "logic_model s5 = V2 \<and> two_valued_state s5 \<and> event_stack s5 = []"
    by (rule run_vectors_invariant
          [where I = "\<lambda>s. logic_model s = V2 \<and> two_valued_state s \<and> event_stack s = []",
          OF _ r _ assms])
       (auto dest: Threaded_step_two_valued simp: init_two_valued init_logic_model)
  then show "two_valued_state s5" by simp
qed

lemma spare_runs_return:
  "(case run_vectors TwoList_simulate_vector (TwoListSimulator_init spare_input_circuit V2)
           [[0 \<mapsto> LOGIC_ONE]] of
      Some (Inr (s, h)) \<Rightarrow> net_values s = [LOGIC_ONE, LOGIC_ZERO, LOGIC_ZERO, LOGIC_ZERO] | _ \<Rightarrow> False)"
  "(case run_vectors SingleListEvent_simulate_vector
           (SingleListEventSimulator_init spare_input_circuit V2)
           [[0 \<mapsto> LOGIC_ONE]] of
      Some (Inr (s, h)) \<Rightarrow> net_values s = [LOGIC_ONE, LOGIC_ZERO, LOGIC_ZERO, LOGIC_ZERO] | _ \<Rightarrow> False)"
  "(case run_vectors SingleListGate_simulate_vector
           (SingleListGateSimulator_init spare_input_circuit V2)
           [[0 \<mapsto> LOGIC_ONE]] of
      Some (Inr (s, h)) \<Rightarrow> net_values s = [LOGIC_ONE, LOGIC_ZERO, LOGIC_ZERO, LOGIC_ZERO] | _ \<Rightarrow> False)"
  "(case ZeroDelaySimulator_init spare_input_circuit V2 of
      Inr s0 \<Rightarrow>
        (case run_vectors ZeroDelay_simulate_vector s0 [[0 \<mapsto> LOGIC_ONE]] of
           Some (Inr (s, h)) \<Rightarrow> net_values s = [LOGIC_ONE, LOGIC_ZERO, LOGIC_ZERO, LOGIC_ZERO]
         | _ \<Rightarrow> False)
    | Inl e \<Rightarrow> False)"
  "(case run_vectors Threaded_simulate_vector (ThreadedSimulator_init spare_input_circuit V2)
           [[0 \<mapsto> LOGIC_ONE]] of
      Some (Inr (s, h)) \<Rightarrow> net_values s = [LOGIC_ONE, LOGIC_ZERO, LOGIC_ZERO, LOGIC_ZERO] | _ \<Rightarrow> False)"
  by code_simp+

theorem two_valued_runs_stay_two_valued_witness:
  "ran [0 \<mapsto> LOGIC_ONE] \<subseteq> two_valued
   \<and> (\<exists>s1 h1 s2 h2 s3 h3 s0 s4 h4 s5 h5.
        run_vectors TwoList_simulate_vector (TwoListSimulator_init spare_input_circuit V2)
          [[0 \<mapsto> LOGIC_ONE]] = Some (Inr (s1, h1))
        \<and> run_vectors SingleListEvent_simulate_vector
            (SingleListEventSimulator_init spare_input_circuit V2)
            [[0 \<mapsto> LOGIC_ONE]] = Some (Inr (s2, h2))
        \<and> run_vectors SingleListGate_simulate_vector
            (SingleListGateSimulator_init spare_input_circuit V2)
            [[0 \<mapsto> LOGIC_ONE]] = Some (Inr (s3, h3))
        \<and> ZeroDelaySimulator_init spare_input_circuit V2 = Inr s0
        \<and> run_vectors ZeroDelay_simulate_vector s0
            [[0 \<mapsto> LOGIC_ONE]] = Some (Inr (s4, h4))
        \<and> run_vectors Threaded_simulate_vector (ThreadedSimulator_init spare_input_circuit V2)
            [[0 \<mapsto> LOGIC_ONE]] = Some (Inr (s5, h5))
        \<and> net_values s3 = [LOGIC_ONE, LOGIC_ZERO, LOGIC_ZERO, LOGIC_ZERO]
        \<and> two_valued_state s1 \<and> two_valued_state s2 \<and> two_valued_state s3
        \<and> two_valued_state s4 \<and> two_valued_state s5)"
proof -
  let ?vs = "[[0 \<mapsto> LOGIC_ONE :: logic]]"
  have h: "\<forall>iv \<in> set ?vs. ran iv \<subseteq> two_valued"
    by (auto simp: ran_def two_valued_def split: if_splits)
  from spare_runs_return(1) obtain s1 h1 where
    r1: "run_vectors TwoList_simulate_vector (TwoListSimulator_init spare_input_circuit V2) ?vs
           = Some (Inr (s1, h1))"
    by (elim returnsE) auto
  from spare_runs_return(2) obtain s2 h2 where
    r2: "run_vectors SingleListEvent_simulate_vector
           (SingleListEventSimulator_init spare_input_circuit V2) ?vs = Some (Inr (s2, h2))"
    by (elim returnsE) auto
  from spare_runs_return(3) obtain s3 h3 where
    r3: "run_vectors SingleListGate_simulate_vector
           (SingleListGateSimulator_init spare_input_circuit V2) ?vs = Some (Inr (s3, h3))"
    and v3: "net_values s3 = [LOGIC_ONE, LOGIC_ZERO, LOGIC_ZERO, LOGIC_ZERO]"
    by (elim returnsE) auto
  from spare_runs_return(4) obtain s0 where
    i: "ZeroDelaySimulator_init spare_input_circuit V2 = Inr s0"
    and c4: "(case run_vectors ZeroDelay_simulate_vector s0 ?vs of
           Some (Inr (s, h)) \<Rightarrow> net_values s = [LOGIC_ONE, LOGIC_ZERO, LOGIC_ZERO, LOGIC_ZERO]
         | _ \<Rightarrow> False)"
    by (cases "ZeroDelaySimulator_init spare_input_circuit V2") auto
  from c4 obtain s4 h4 where
    r4: "run_vectors ZeroDelay_simulate_vector s0 ?vs = Some (Inr (s4, h4))"
    by (elim returnsE) auto
  from spare_runs_return(5) obtain s5 h5 where
    r5: "run_vectors Threaded_simulate_vector (ThreadedSimulator_init spare_input_circuit V2) ?vs
           = Some (Inr (s5, h5))"
    by (elim returnsE) auto
  from two_valued_runs_stay_two_valued [OF h, of spare_input_circuit s1 h1 s2 h2 s3 h3 s0 s4 h4 s5 h5]
    r1 r2 r3 i r4 r5
  have "two_valued_state s1 \<and> two_valued_state s2 \<and> two_valued_state s3
        \<and> two_valued_state s4 \<and> two_valued_state s5"
    by blast
  moreover from h have "ran [0 \<mapsto> LOGIC_ONE] \<subseteq> two_valued" by simp
  ultimately show ?thesis using r1 r2 r3 v3 i r4 r5 by blast
qed

section \<open>The first call in two-valued mode\<close>
































lemma not_circuit_fields:
  "gates not_circuit = [\<lparr>gid = 0, gtype = NOT, inputs = [0], output_net = 1\<rparr>]"
  "primary_inputs not_circuit = [0]"
  "primary_outputs not_circuit = [1]"
  "next_net_id not_circuit = 2"
  "fanout not_circuit 0 = [\<lparr>gid = 0, gtype = NOT, inputs = [0], output_net = 1\<rparr>]"
  "fanout not_circuit (Suc 0) = []"
  by (simp_all add: not_circuit_def build_defs)





end
